theory Spec2Isabelle
  imports Main
begin

section \<open>Data model\<close>

text \<open>
  The TypeScript types \<open>Player = "X" | "O" | null\<close> and \<open>Player | "draw"\<close> are one
  run-time universe of values (the main board is passed to \<open>checkBoardWinner\<close> through a
  cast), so cells, sub-board statuses and the winner share one datatype; \<open>Null\<close> is
  JavaScript's \<open>null\<close>, \<open>PX\<close> and \<open>PO\<close> are the strings
  \<open>"X"\<close> and \<open>"O"\<close>.
\<close>

datatype mark = Null | PX | PO | Draw

type_synonym BoardState = "mark list"
type_synonym UltimateBoardState = "mark list"

text \<open>
  Reading \<open>arr[i]\<close>: an index outside the array yields \<open>undefined\<close>, which is
  \<open>None\<close> here; \<open>Some v\<close> is a stored value.
\<close>

definition at :: "'a list \<Rightarrow> int \<Rightarrow> 'a option" where
  "at xs i = (if 0 \<le> i \<and> i < int (length xs) then Some (xs ! nat i) else None)"

text \<open>
  Writing \<open>arr[i] = v\<close>. Every write of the program happens after a read of the same
  slot returned \<open>null\<close>, so the index is inside the array whenever a write is reached
  (lemma \<open>at_Some_range\<close> below); outside the array the list is left as it is.
\<close>

definition put :: "'a list \<Rightarrow> int \<Rightarrow> 'a \<Rightarrow> 'a list" where
  "put xs i v = (if 0 \<le> i \<and> i < int (length xs) then xs[nat i := v] else xs)"

definition WINNING_COMBINATIONS :: "(int \<times> int \<times> int) list" where
  "WINNING_COMBINATIONS =
     [(0, 1, 2), (3, 4, 5), (6, 7, 8),
      (0, 3, 6), (1, 4, 7), (2, 5, 8),
      (0, 4, 8), (2, 4, 6)]"

text \<open>
  The \<open>for\<close> loop of \<open>checkBoardWinner\<close>: the first combination whose three slots hold
  the same truthy value returns that value; \<open>None\<close> means the loop ended without
  returning. \<open>undefined\<close> and \<open>null\<close> are falsy, the three strings are truthy.
\<close>

fun firstLine :: "mark list \<Rightarrow> (int \<times> int \<times> int) list \<Rightarrow> mark option" where
  "firstLine board [] = None"
| "firstLine board ((a, b, c) # rest) =
     (case at board a of
        None \<Rightarrow> firstLine board rest
      | Some v \<Rightarrow>
          if v \<noteq> Null \<and> at board b = Some v \<and> at board c = Some v then Some v
          else firstLine board rest)"

definition checkBoardWinner :: "mark list \<Rightarrow> mark" where
  "checkBoardWinner board =
     (case firstLine board WINNING_COMBINATIONS of
        Some v \<Rightarrow> v
      | None \<Rightarrow> if list_all (\<lambda>cell. cell \<noteq> Null) board then Draw else Null)"

text \<open>The game state shared by the component and by a room.\<close>

record game =
  boards :: "BoardState list"
  mainBoard :: UltimateBoardState
  currentPlayer :: mark
  nextBoardIndex :: int
  gameOver :: bool
  winner :: mark
  lastMove :: "(int \<times> int) option"

text \<open>\<open>GameRoom\<close> of \<open>game-server-store.ts\<close>: the game state and the room's own fields.\<close>

record room = game +
  room_id :: string
  players :: "string list"
  spectators :: "string list"
  lastUpdateTime :: int

definition gameState :: "room \<Rightarrow> game" where
  "gameState r =
     \<lparr> boards = boards r, mainBoard = mainBoard r, currentPlayer = currentPlayer r,
       nextBoardIndex = nextBoardIndex r, gameOver = gameOver r, winner = winner r,
       lastMove = lastMove r \<rparr>"

definition emptyBoards :: "BoardState list" where
  "emptyBoards = replicate 9 (replicate 9 Null)"

definition emptyMainBoard :: UltimateBoardState where
  "emptyMainBoard = replicate 9 Null"

section \<open>The room driver (\<open>api/game\<close>)\<close>

datatype playerSymbol = SymX | SymO | Spectator

text \<open>
  What a handler answers: an error response with its message, the success response of a
  join (symbol and host flag), the success response of a move or reset, or an uncaught
  \<open>TypeError\<close> (reading a slot of \<open>undefined\<close>).
\<close>

datatype response =
    Failure string
  | Joined playerSymbol bool
  | Success
  | Thrown

text \<open>\<open>Array.prototype.indexOf\<close>: the first position of the value, or \<open>-1\<close>.\<close>

fun indexOf :: "'a list \<Rightarrow> 'a \<Rightarrow> int" where
  "indexOf [] x = -1"
| "indexOf (y # ys) x =
     (if y = x then 0 else (let i = indexOf ys x in if i = -1 then -1 else i + 1))"

text \<open>The room stored by the create endpoint; \<open>now\<close> is \<open>Date.now()\<close>.\<close>

definition createRoom :: "string \<Rightarrow> string \<Rightarrow> int \<Rightarrow> room" where
  "createRoom rid playerId now =
     \<lparr> boards = emptyBoards, mainBoard = emptyMainBoard, currentPlayer = PX,
       nextBoardIndex = -1, gameOver = False, winner = Null, lastMove = None,
       room_id = rid, players = [playerId], spectators = [], lastUpdateTime = now \<rparr>"

definition handleJoinRoom :: "room \<Rightarrow> string \<Rightarrow> int \<Rightarrow> response \<times> room" where
  "handleJoinRoom r playerId now =
     (if playerId \<in> set (players r) then
        (Joined (if indexOf (players r) playerId = 0 then SymX else SymO)
                (indexOf (players r) playerId = 0), r)
      else if length (players r) \<ge> 2 then
        (Joined Spectator False,
         if playerId \<notin> set (spectators r)
         then r\<lparr> spectators := spectators r @ [playerId] \<rparr> else r)
      else
        (Joined SymO False,
         r\<lparr> players := players r @ [playerId], lastUpdateTime := now \<rparr>))"

text \<open>
  The mutating part of \<open>handleMakeMove\<close> (lines 117 to 145), reached once every guard
  has passed; \<open>row\<close> is \<open>room.boards[boardIndex]\<close>.
\<close>

definition makeTheMove :: "room \<Rightarrow> BoardState \<Rightarrow> int \<Rightarrow> int \<Rightarrow> int \<Rightarrow> room" where
  "makeTheMove r row boardIndex cellIndex now =
     (let row' = put row cellIndex (currentPlayer r);
          r1 = r\<lparr> boards := put (boards r) boardIndex row',
                   lastMove := Some (boardIndex, cellIndex) \<rparr>;
          boardWinner = checkBoardWinner row';
          r2 = (if boardWinner \<noteq> Null then
                  (let r' = r1\<lparr> mainBoard := put (mainBoard r1) boardIndex boardWinner \<rparr>;
                       gameWinner = checkBoardWinner (mainBoard r')
                   in if gameWinner \<noteq> Null
                      then r'\<lparr> winner := gameWinner, gameOver := True \<rparr> else r')
                else r1);
          r3 = r2\<lparr> nextBoardIndex :=
                     (if at (mainBoard r2) cellIndex = Some Null then cellIndex else -1) \<rparr>;
          r4 = r3\<lparr> currentPlayer := (if currentPlayer r3 = PX then PO else PX) \<rparr>;
          r5 = (if \<not> gameOver r4 \<and> list_all (\<lambda>cell. cell \<noteq> Null) (mainBoard r4)
                then r4\<lparr> gameOver := True, winner := Draw \<rparr> else r4)
      in r5\<lparr> lastUpdateTime := now \<rparr>)"

definition handleMakeMove :: "room \<Rightarrow> string \<Rightarrow> int \<Rightarrow> int \<Rightarrow> int \<Rightarrow> response \<times> room" where
  "handleMakeMove r playerId boardIndex cellIndex now =
     (let playerIndex = indexOf (players r) playerId in
      if playerIndex = -1 \<or> (playerIndex = 0 \<and> currentPlayer r \<noteq> PX)
           \<or> (playerIndex = 1 \<and> currentPlayer r \<noteq> PO)
      then (Failure ''Not your turn'', r)
      else if gameOver r then (Failure ''Game is over'', r)
      else if nextBoardIndex r \<noteq> -1 \<and> nextBoardIndex r \<noteq> boardIndex
                \<and> at (mainBoard r) (nextBoardIndex r) = Some Null
      then (Failure ''Invalid board'', r)
      else if at (mainBoard r) boardIndex \<noteq> Some Null
      then (Failure ''Board already won'', r)
      else (case at (boards r) boardIndex of
              None \<Rightarrow> (Thrown, r)
            | Some row \<Rightarrow>
                if at row cellIndex \<noteq> Some Null then (Failure ''Cell already filled'', r)
                else (Success, makeTheMove r row boardIndex cellIndex now)))"

definition handleResetGame :: "room \<Rightarrow> string \<Rightarrow> int \<Rightarrow> response \<times> room" where
  "handleResetGame r playerId now =
     (if at (players r) 0 \<noteq> Some playerId
      then (Failure ''Only host can reset the game'', r)
      else (Success,
            r\<lparr> boards := emptyBoards, mainBoard := emptyMainBoard, currentPlayer := PX,
               nextBoardIndex := -1, gameOver := False, winner := Null, lastMove := None,
               lastUpdateTime := now \<rparr>))"

text \<open>
  The requests a room can receive after it was created, and the rooms that creating a room
  and serving requests can produce.
\<close>

datatype request =
    Join string
  | Move string int int
  | Reset string

fun serve :: "room \<Rightarrow> request \<Rightarrow> int \<Rightarrow> response \<times> room" where
  "serve r (Join playerId) now = handleJoinRoom r playerId now"
| "serve r (Move playerId boardIndex cellIndex) now =
     handleMakeMove r playerId boardIndex cellIndex now"
| "serve r (Reset playerId) now = handleResetGame r playerId now"

inductive reachable :: "room \<Rightarrow> bool" where
  created: "reachable (createRoom rid playerId now)"
| served: "reachable r \<Longrightarrow> reachable (snd (serve r req now))"

section \<open>The client-side store (\<open>multiplayer-store.ts\<close>)\<close>

text \<open>
  The part of the store's state that \<open>makeMove\<close> reads and writes. The store's
  \<open>GameRoom\<close> has no \<open>spectators\<close> field; the spread \<open>...currentRoom\<close> copies
  whatever fields the room has, so the room record above is reused.
\<close>

record store =
  playerSymbol :: "playerSymbol option"
  currentRoom :: "room option"
  rooms :: "string \<Rightarrow> room option"

text \<open>\<open>playerSymbol === currentRoom.currentPlayer\<close>, a comparison of strings.\<close>

fun sameSymbol :: "playerSymbol option \<Rightarrow> mark \<Rightarrow> bool" where
  "sameSymbol (Some SymX) PX = True"
| "sameSymbol (Some SymO) PO = True"
| "sameSymbol s m = False"

text \<open>
  \<open>updatedRoom\<close> of \<open>makeMove\<close> (lines 257 to 302), and \<open>makeMove\<close> itself: the
  boolean returned (\<open>None\<close> for a \<open>TypeError\<close>) and the store afterwards.
\<close>

definition updatedRoom :: "room \<Rightarrow> BoardState \<Rightarrow> int \<Rightarrow> int \<Rightarrow> int \<Rightarrow> room" where
  "updatedRoom cr row boardIndex cellIndex now =
     (let row' = put row cellIndex (currentPlayer cr);
          newBoards = put (boards cr) boardIndex row';
          boardWinner = checkBoardWinner row';
          newMainBoard = (if boardWinner \<noteq> Null then put (mainBoard cr) boardIndex boardWinner
                          else mainBoard cr);
          gameWinner = checkBoardWinner newMainBoard;
          gameOver1 = (if gameWinner \<noteq> Null then True else gameOver cr);
          winner1 = (if gameWinner \<noteq> Null then gameWinner else winner cr);
          isDraw = (\<not> gameOver1 \<and> list_all (\<lambda>cell. cell \<noteq> Null) newMainBoard);
          nextBoard = (if at newMainBoard cellIndex = Some Null then cellIndex else -1);
          nextPlayer = (if currentPlayer cr = PX then PO else PX)
      in cr\<lparr> boards := newBoards, mainBoard := newMainBoard, currentPlayer := nextPlayer,
              nextBoardIndex := nextBoard, gameOver := (if isDraw then True else gameOver1),
              winner := (if isDraw then Draw else winner1),
              lastMove := Some (boardIndex, cellIndex), lastUpdateTime := now \<rparr>)"

definition makeMove :: "store \<Rightarrow> int \<Rightarrow> int \<Rightarrow> int \<Rightarrow> bool option \<times> store" where
  "makeMove st boardIndex cellIndex now =
     (case currentRoom st of
        None \<Rightarrow> (Some False, st)
      | Some cr \<Rightarrow>
          if \<not> sameSymbol (playerSymbol st) (currentPlayer cr) \<or> playerSymbol st = Some Spectator
          then (Some False, st)
          else if gameOver cr then (Some False, st)
          else if nextBoardIndex cr \<noteq> -1 \<and> nextBoardIndex cr \<noteq> boardIndex
                    \<and> at (mainBoard cr) (nextBoardIndex cr) = Some Null
          then (Some False, st)
          else if at (mainBoard cr) boardIndex \<noteq> Some Null then (Some False, st)
          else (case at (boards cr) boardIndex of
                  None \<Rightarrow> (None, st)
                | Some row \<Rightarrow>
                    if at row cellIndex \<noteq> Some Null then (Some False, st)
                    else
                      (let new = updatedRoom cr row boardIndex cellIndex now
                       in (Some True,
                           st\<lparr> rooms := (rooms st)(room_id cr \<mapsto> new),
                               currentRoom := Some new \<rparr>))))"

section \<open>The local driver (component \<open>UltimateTicTacToe\<close>)\<close>

text \<open>
  \<open>handleMove\<close> outside multiplayer mode. The component's state variables are the fields
  of \<open>game\<close>; the handler reads the values of the current render and calls setters, so
  the result is the state of the next render. \<open>None\<close> is the \<open>TypeError\<close> of reading
  a cell of a missing row. Line 606 reads \<open>mainBoard\<close>, the value of the current render,
  not \<open>newMainBoard\<close>.
\<close>

definition handleMove :: "game \<Rightarrow> int \<Rightarrow> int \<Rightarrow> game option" where
  "handleMove g boardIndex cellIndex =
     (if gameOver g then Some g
      else if nextBoardIndex g \<noteq> -1 \<and> nextBoardIndex g \<noteq> boardIndex
                \<and> at (mainBoard g) (nextBoardIndex g) = Some Null
      then Some g
      else if at (mainBoard g) boardIndex \<noteq> Some Null then Some g
      else (case at (boards g) boardIndex of
              None \<Rightarrow> None
            | Some row \<Rightarrow>
                if at row cellIndex \<noteq> Some Null then Some g
                else
                  (let row' = put row cellIndex (currentPlayer g);
                       newBoards = put (boards g) boardIndex row';
                       g1 = g\<lparr> boards := newBoards, lastMove := Some (boardIndex, cellIndex) \<rparr>;
                       boardWinner = checkBoardWinner row';
                       newMainBoard = put (mainBoard g) boardIndex boardWinner;
                       gameWinner = checkBoardWinner newMainBoard;
                       nextBoard = (if at (mainBoard g) cellIndex = Some Null then cellIndex else -1);
                       nextPlayer = (if currentPlayer g = PX then PO else PX)
                   in if boardWinner \<noteq> Null then
                        (if gameWinner \<noteq> Null
                         then Some (g1\<lparr> mainBoard := newMainBoard, winner := gameWinner,
                                        gameOver := True \<rparr>)
                         else Some (g1\<lparr> mainBoard := newMainBoard, nextBoardIndex := nextBoard,
                                        currentPlayer := nextPlayer \<rparr>))
                      else Some (g1\<lparr> nextBoardIndex := nextBoard,
                                     currentPlayer := nextPlayer \<rparr>))))"

definition initialGame :: game where
  "initialGame =
     \<lparr> boards = emptyBoards, mainBoard = emptyMainBoard, currentPlayer = PX,
       nextBoardIndex = -1, gameOver = False, winner = Null, lastMove = None \<rparr>"

text \<open>A sequence of clicks handled one after the other, each in the render the last one left.\<close>

fun handleMoves :: "game \<Rightarrow> (int \<times> int) list \<Rightarrow> game option" where
  "handleMoves g [] = Some g"
| "handleMoves g ((boardIndex, cellIndex) # rest) =
     (case handleMove g boardIndex cellIndex of
        None \<Rightarrow> None
      | Some g' \<Rightarrow> handleMoves g' rest)"

section \<open>Heuristic evaluation and search\<close>

definition opponentOf :: "mark \<Rightarrow> mark" where
  "opponentOf player = (if player = PX then PO else PX)"

text \<open>
  One pass of the body of the loops over \<open>WINNING_COMBINATIONS\<close> in \<open>evaluateBoard\<close>:
  \<open>line\<close> holds the three slots read (a slot may be \<open>undefined\<close>), \<open>w\<close> is 10 on the
  main board and 1 on a sub-board.
\<close>

definition countOf :: "mark \<Rightarrow> mark option list \<Rightarrow> int" where
  "countOf v line = int (length (filter (\<lambda>cell. cell = Some v) line))"

definition lineScore :: "int \<Rightarrow> mark \<Rightarrow> mark option list \<Rightarrow> int" where
  "lineScore w player line =
     (let playerCount = countOf player line;
          opponentCount = countOf (opponentOf player) line
      in (if playerCount > 0 \<and> opponentCount = 0 then playerCount * w else 0)
         - (if opponentCount > 0 \<and> playerCount = 0 then opponentCount * w else 0))"

definition linesScore :: "int \<Rightarrow> mark \<Rightarrow> mark list \<Rightarrow> int" where
  "linesScore w player board =
     sum_list (map (\<lambda>(a, b, c). lineScore w player [at board a, at board b, at board c])
                   WINNING_COMBINATIONS)"

text \<open>
  The loop over \<open>boardIndex\<close> of \<open>evaluateBoard\<close>; \<open>None\<close> is the \<open>TypeError\<close> of
  \<open>boards[boardIndex][a]\<close> when the row is missing.
\<close>

fun subScores :: "BoardState list \<Rightarrow> mark list \<Rightarrow> mark \<Rightarrow> int list \<Rightarrow> int option" where
  "subScores bs mb player [] = Some 0"
| "subScores bs mb player (boardIndex # rest) =
     (if at mb boardIndex = Some Null then
        (case at bs boardIndex of
           None \<Rightarrow> None
         | Some row \<Rightarrow> map_option (\<lambda>s. linesScore 1 player row + s) (subScores bs mb player rest))
      else subScores bs mb player rest)"

text \<open>
  \<open>evaluateBoard(player)\<close> takes the boards from the component's state, which are
  parameters here.
\<close>

definition evaluateBoard :: "BoardState list \<Rightarrow> mark list \<Rightarrow> mark \<Rightarrow> int option" where
  "evaluateBoard bs mb player =
     (let opponent = opponentOf player;
          gameWinner = checkBoardWinner mb
      in if gameWinner = player then Some 1000
         else if gameWinner = opponent then Some (- 1000)
         else if gameWinner = Draw then Some 0
         else map_option (\<lambda>s. linesScore 10 player mb + s) (subScores bs mb player [0..8]))"

text \<open>Scores are JavaScript numbers: integers and the two infinities.\<close>

datatype jsnum = NegInf | Num int | PosInf

instantiation jsnum :: linorder
begin

fun less_eq_jsnum :: "jsnum \<Rightarrow> jsnum \<Rightarrow> bool" where
  "less_eq_jsnum NegInf y = True"
| "less_eq_jsnum (Num a) NegInf = False"
| "less_eq_jsnum (Num a) (Num b) = (a \<le> b)"
| "less_eq_jsnum (Num a) PosInf = True"
| "less_eq_jsnum PosInf y = (y = PosInf)"

definition less_jsnum :: "jsnum \<Rightarrow> jsnum \<Rightarrow> bool" where
  "less_jsnum x y = (x \<le> y \<and> \<not> y \<le> x)"

instance
proof
  fix x y z :: jsnum
  show "(x < y) = (x \<le> y \<and> \<not> y \<le> x)" by (simp add: less_jsnum_def)
  show "x \<le> x" by (cases x) simp_all
  show "x \<le> y \<Longrightarrow> y \<le> z \<Longrightarrow> x \<le> z" by (cases x; cases y; cases z) simp_all
  show "x \<le> y \<Longrightarrow> y \<le> x \<Longrightarrow> x = y" by (cases x; cases y) simp_all
  show "x \<le> y \<or> y \<le> x" by (cases x; cases y) auto
qed

end

type_synonym move = "int \<times> int"
type_synonym searchResult = "jsnum \<times> move option"

text \<open>
  The empty cells of one sub-board, in cell order (the inner \<open>for\<close> loop of the move
  generation); \<open>None\<close> is the \<open>TypeError\<close> of a missing row.
\<close>

definition cellsOf :: "BoardState list \<Rightarrow> int \<Rightarrow> move list option" where
  "cellsOf bs boardIndex =
     (case at bs boardIndex of
        None \<Rightarrow> None
      | Some row \<Rightarrow>
          Some (map (\<lambda>cellIndex. (boardIndex, cellIndex))
                    (filter (\<lambda>cellIndex. at row cellIndex = Some Null) [0..8])))"

fun allBoards :: "BoardState list \<Rightarrow> mark list \<Rightarrow> int list \<Rightarrow> move list option" where
  "allBoards bs mb [] = Some []"
| "allBoards bs mb (boardIndex # rest) =
     (if at mb boardIndex = Some Null then
        (case cellsOf bs boardIndex of
           None \<Rightarrow> None
         | Some ms \<Rightarrow> map_option (\<lambda>more. ms @ more) (allBoards bs mb rest))
      else allBoards bs mb rest)"

definition validMoves :: "BoardState list \<Rightarrow> mark list \<Rightarrow> int \<Rightarrow> move list option" where
  "validMoves bs mb currentNextBoardIndex =
     (if currentNextBoardIndex \<noteq> -1 then
        (if at mb currentNextBoardIndex = Some Null then cellsOf bs currentNextBoardIndex
         else allBoards bs mb [0..8])
      else allBoards bs mb [0..8])"

text \<open>
  Playing \<open>move\<close> for \<open>who\<close> on copies of the boards, as the body of both loops of
  \<open>minimax\<close> does: the new boards, the new main board and the new next board index.
\<close>

definition simulate ::
  "BoardState list \<Rightarrow> mark list \<Rightarrow> mark \<Rightarrow> move \<Rightarrow> (BoardState list \<times> mark list \<times> int) option" where
  "simulate bs mb who move =
     (case move of (boardIndex, cellIndex) \<Rightarrow>
        (case at bs boardIndex of
           None \<Rightarrow> None
         | Some row \<Rightarrow>
             (let row' = put row cellIndex who;
                  newBoards = put bs boardIndex row';
                  boardWinner = checkBoardWinner row';
                  newMainBoard = (if boardWinner \<noteq> Null then put mb boardIndex boardWinner else mb);
                  newNextBoardIndex = (if at newMainBoard cellIndex = Some Null then cellIndex else -1)
              in Some (newBoards, newMainBoard, newNextBoardIndex))))"

text \<open>
  The two loops over \<open>validMoves\<close>. \<open>child alpha beta move\<close> is the recursive call made
  for \<open>move\<close> with the current window; \<open>break\<close> ends the loop.
\<close>

fun maxLoop ::
  "(jsnum \<Rightarrow> jsnum \<Rightarrow> move \<Rightarrow> searchResult option) \<Rightarrow> jsnum \<Rightarrow> jsnum \<Rightarrow> jsnum \<Rightarrow> move option
     \<Rightarrow> move list \<Rightarrow> searchResult option" where
  "maxLoop child alpha beta maxEval bestMove [] = Some (maxEval, bestMove)"
| "maxLoop child alpha beta maxEval bestMove (move # rest) =
     (case child alpha beta move of
        None \<Rightarrow> None
      | Some (score, _) \<Rightarrow>
          (let maxEval' = (if score > maxEval then score else maxEval);
               bestMove' = (if score > maxEval then Some move else bestMove);
               alpha' = max alpha score
           in if beta \<le> alpha' then Some (maxEval', bestMove')
              else maxLoop child alpha' beta maxEval' bestMove' rest))"

fun minLoop ::
  "(jsnum \<Rightarrow> jsnum \<Rightarrow> move \<Rightarrow> searchResult option) \<Rightarrow> jsnum \<Rightarrow> jsnum \<Rightarrow> jsnum \<Rightarrow> move option
     \<Rightarrow> move list \<Rightarrow> searchResult option" where
  "minLoop child alpha beta minEval bestMove [] = Some (minEval, bestMove)"
| "minLoop child alpha beta minEval bestMove (move # rest) =
     (case child alpha beta move of
        None \<Rightarrow> None
      | Some (score, _) \<Rightarrow>
          (let minEval' = (if score < minEval then score else minEval);
               bestMove' = (if score < minEval then Some move else bestMove);
               beta' = min beta score
           in if beta' \<le> alpha then Some (minEval', bestMove')
              else minLoop child alpha beta' minEval' bestMove' rest))"

text \<open>
  \<open>minimax\<close>. The first two arguments are the component's \<open>boards\<close> and \<open>mainBoard\<close>,
  which \<open>evaluateBoard\<close> reads; the simulated position is
  \<open>currentBoards\<close>, \<open>currentMainBoard\<close>, \<open>currentNextBoardIndex\<close>. The depth is
  the AI difficulty (a whole number from 1 to 8) and is counted down to 0.
\<close>

fun minimax ::
  "BoardState list \<Rightarrow> mark list \<Rightarrow> nat \<Rightarrow> jsnum \<Rightarrow> jsnum \<Rightarrow> bool \<Rightarrow> mark
     \<Rightarrow> BoardState list \<Rightarrow> mark list \<Rightarrow> int \<Rightarrow> searchResult option" where
  "minimax boards0 mainBoard0 depth alpha beta isMaximizing player
           currentBoards currentMainBoard currentNextBoardIndex =
     (let gameWinner = checkBoardWinner currentMainBoard in
      if gameWinner = player then Some (Num (100 + int depth), None)
      else if gameWinner = opponentOf player then Some (Num (- 100 - int depth), None)
      else if gameWinner = Draw then Some (Num 0, None)
      else
        (case depth of
           0 \<Rightarrow> map_option (\<lambda>s. (Num s, None)) (evaluateBoard boards0 mainBoard0 player)
         | Suc d \<Rightarrow>
             (case validMoves currentBoards currentMainBoard currentNextBoardIndex of
                None \<Rightarrow> None
              | Some moves \<Rightarrow>
                  if moves = [] then Some (Num 0, None)
                  else if isMaximizing then
                    maxLoop
                      (\<lambda>a b move.
                         case simulate currentBoards currentMainBoard player move of
                           None \<Rightarrow> None
                         | Some (newBoards, newMainBoard, newNextBoardIndex) \<Rightarrow>
                             minimax boards0 mainBoard0 d a b False player
                                     newBoards newMainBoard newNextBoardIndex)
                      alpha beta NegInf None moves
                  else
                    minLoop
                      (\<lambda>a b move.
                         case simulate currentBoards currentMainBoard (opponentOf player) move of
                           None \<Rightarrow> None
                         | Some (newBoards, newMainBoard, newNextBoardIndex) \<Rightarrow>
                             minimax boards0 mainBoard0 d a b True player
                                     newBoards newMainBoard newNextBoardIndex)
                      alpha beta PosInf None moves)))"

text \<open>
  The unpruned search the pruned one is compared with: the same terminal tests, the same
  leaf evaluation, the same move generation and simulation, every child visited, the
  maximum of the children's scores at a maximizing node and the minimum at a minimizing
  one. \<open>None\<close> is a \<open>TypeError\<close> raised somewhere in the tree.
\<close>

fun bestOf :: "bool \<Rightarrow> jsnum option list \<Rightarrow> jsnum option" where
  "bestOf isMaximizing [] = Some (if isMaximizing then NegInf else PosInf)"
| "bestOf isMaximizing (None # rest) = None"
| "bestOf isMaximizing (Some v # rest) =
     map_option (\<lambda>w. if isMaximizing then max v w else min v w) (bestOf isMaximizing rest)"

fun fullMinimax ::
  "BoardState list \<Rightarrow> mark list \<Rightarrow> nat \<Rightarrow> bool \<Rightarrow> mark
     \<Rightarrow> BoardState list \<Rightarrow> mark list \<Rightarrow> int \<Rightarrow> jsnum option" where
  "fullMinimax boards0 mainBoard0 depth isMaximizing player
               currentBoards currentMainBoard currentNextBoardIndex =
     (let gameWinner = checkBoardWinner currentMainBoard in
      if gameWinner = player then Some (Num (100 + int depth))
      else if gameWinner = opponentOf player then Some (Num (- 100 - int depth))
      else if gameWinner = Draw then Some (Num 0)
      else
        (case depth of
           0 \<Rightarrow> map_option Num (evaluateBoard boards0 mainBoard0 player)
         | Suc d \<Rightarrow>
             (case validMoves currentBoards currentMainBoard currentNextBoardIndex of
                None \<Rightarrow> None
              | Some moves \<Rightarrow>
                  if moves = [] then Some (Num 0)
                  else
                    bestOf isMaximizing
                      (map (\<lambda>move.
                              case simulate currentBoards currentMainBoard
                                     (if isMaximizing then player else opponentOf player) move of
                                None \<Rightarrow> None
                              | Some (newBoards, newMainBoard, newNextBoardIndex) \<Rightarrow>
                                  fullMinimax boards0 mainBoard0 d (\<not> isMaximizing) player
                                              newBoards newMainBoard newNextBoardIndex)
                           moves))))"

section \<open>Well-formed boards, legality, replaying requests\<close>

text \<open>Nine sub-boards of nine cells and a main board of nine entries.\<close>

definition wfGrid :: "BoardState list \<Rightarrow> mark list \<Rightarrow> bool" where
  "wfGrid bs mb = (length bs = 9 \<and> length mb = 9 \<and> list_all (\<lambda>row. length row = 9) bs)"

text \<open>
  Legality as the specification words it (section 4.2): the game is not over; when
  \<open>nextBoardIndex\<close> is not \<open>-1\<close> and that sub-board is unresolved, the move is in that
  sub-board; the target sub-board is unresolved; the target cell is empty.
\<close>

definition isLegal :: "room \<Rightarrow> int \<Rightarrow> int \<Rightarrow> bool" where
  "isLegal s boardIndex cellIndex =
     (\<not> gameOver s
      \<and> (nextBoardIndex s \<noteq> -1 \<and> at (mainBoard s) (nextBoardIndex s) = Some Null
           \<longrightarrow> boardIndex = nextBoardIndex s)
      \<and> at (mainBoard s) boardIndex = Some Null
      \<and> (case at (boards s) boardIndex of
            None \<Rightarrow> False
          | Some row \<Rightarrow> at row cellIndex = Some Null))"

text \<open>
  The symbol recorded for a participant (section 4.6): the first player is X, the second
  is O, anyone else has none.
\<close>

definition symbolOf :: "room \<Rightarrow> string \<Rightarrow> mark option" where
  "symbolOf r playerId =
     (if at (players r) 0 = Some playerId then Some PX
      else if at (players r) 1 = Some playerId then Some PO
      else None)"

text \<open>Serving a list of requests, each with the time at which it is served.\<close>

fun serveAll :: "room \<Rightarrow> (request \<times> int) list \<Rightarrow> room" where
  "serveAll r [] = r"
| "serveAll r ((req, now) # rest) = serveAll (snd (serve r req now)) rest"

fun isReset :: "request \<Rightarrow> bool" where
  "isReset (Reset playerId) = True"
| "isReset req = False"

text \<open>
  The move requests of a game in which \<open>p\<close> and \<open>q\<close> alternate, \<open>p\<close> first, served at
  times \<open>t\<close>, \<open>t + 1\<close>, ...
\<close>

fun turns :: "string \<Rightarrow> string \<Rightarrow> int \<Rightarrow> move list \<Rightarrow> (request \<times> int) list" where
  "turns p q t [] = []"
| "turns p q t ((boardIndex, cellIndex) # ms) =
     (Move p boardIndex cellIndex, t) # turns q p (t + 1) ms"

text \<open>A room created by \<open>host\<close> at time 100 and joined by \<open>guest\<close> at time 200.\<close>

definition twoPlayerRoom :: room where
  "twoPlayerRoom = snd (handleJoinRoom (createRoom ''ROOM01'' ''host'' 100) ''guest'' 200)"

text \<open>Games replayed below: move lists and the rooms they lead to.\<close>

definition xWinsGame :: "move list" where
  "xWinsGame =
     [(6, 7), (7, 4), (4, 0), (0, 4), (4, 1), (1, 6), (6, 5), (5, 6), (6, 6), (6, 2),
      (2, 2), (2, 6), (6, 8), (8, 6), (2, 8), (8, 2), (2, 5), (5, 4)]"

definition beforeWin :: room where
  "beforeWin = serveAll twoPlayerRoom (turns ''host'' ''guest'' 300 xWinsGame)"

definition drawLineGame :: "move list" where
  "drawLineGame =
     [(1, 0), (0, 0), (0, 2), (2, 1), (1, 1), (1, 2), (2, 0), (0, 1), (1, 4), (4, 1),
      (1, 6), (6, 2), (2, 2), (2, 4), (4, 0), (0, 4), (4, 2), (2, 3), (3, 1), (1, 7),
      (7, 1), (1, 8), (8, 1), (1, 3), (3, 0), (0, 5), (5, 2), (2, 6), (6, 0), (0, 6),
      (6, 6), (6, 1), (1, 5), (5, 0), (0, 7), (7, 2), (2, 7), (7, 0), (0, 8), (8, 0),
      (0, 3), (3, 2), (2, 5), (5, 8), (8, 2)]"

definition beforeDrawLine :: room where
  "beforeDrawLine = serveAll twoPlayerRoom (turns ''host'' ''guest'' 300 drawLineGame)"

definition beforeCentre :: room where
  "beforeCentre =
     serveAll twoPlayerRoom (turns ''host'' ''guest'' 300 [(4, 0), (0, 4), (4, 8), (8, 4)])"

definition afterCentre :: room where
  "afterCentre = snd (handleMakeMove beforeCentre ''host'' 4 4 304)"

text \<open>
  What a search with window \<open>(alpha, beta)\<close> may return for a node of true value
  \<open>t\<close>: the value itself when strictly inside the window, an upper bound of \<open>t\<close>
  when at most \<open>alpha\<close>, a lower bound when at least \<open>beta\<close>.
\<close>

definition softBound :: "jsnum \<Rightarrow> jsnum \<Rightarrow> jsnum \<Rightarrow> jsnum \<Rightarrow> bool" where
  "softBound alpha beta v t =
     ((v \<le> alpha \<longrightarrow> t \<le> v) \<and> (alpha < v \<and> v < beta \<longrightarrow> v = t) \<and> (beta \<le> v \<longrightarrow> v \<le> t))"

section \<open>Basic facts\<close>

lemma at_Some_range: "at xs i = Some v \<Longrightarrow> 0 \<le> i \<and> i < int (length xs) \<and> xs ! nat i = v"
  by (auto simp: at_def split: if_splits)

lemma length_put [simp]: "length (put xs i v) = length xs"
  by (simp add: put_def)

lemma at_put: "at (put xs i v) j = (if j = i \<and> 0 \<le> i \<and> i < int (length xs) then Some v else at xs j)"
  by (auto simp: at_def put_def nth_list_update)

lemma nth_put: "put xs i v ! k = (if 0 \<le> i \<and> i < int (length xs) \<and> k = nat i then v else xs ! k)"
  by (auto simp: put_def nth_list_update)

lemma list_all_put: "list_all P xs \<Longrightarrow> P v \<Longrightarrow> list_all P (put xs i v)"
  by (auto simp: put_def list_all_iff dest: set_update_subset_insert [THEN subsetD])

lemma indexOf_bounds: "- 1 \<le> indexOf xs x \<and> indexOf xs x < int (length xs)"
  by (induction xs) (auto simp: Let_def)

lemma indexOf_notin: "(indexOf xs x = -1) = (x \<notin> set xs)"
proof (induction xs)
  case Nil
  then show ?case by simp
next
  case (Cons y ys)
  then show ?case using indexOf_bounds [of ys x] by (auto simp: Let_def)
qed

lemma indexOf_range: "x \<in> set xs \<Longrightarrow> 0 \<le> indexOf xs x \<and> indexOf xs x < int (length xs)"
  using indexOf_bounds [of xs x] indexOf_notin [of xs x] by auto

lemma indexOf_0: "(indexOf xs x = 0) = (at xs 0 = Some x)"
  using indexOf_range [of x "tl xs"]
  by (cases xs) (auto simp: at_def Let_def indexOf_notin)

lemma indexOf_1: "(indexOf xs x = 1) = (at xs 1 = Some x \<and> at xs 0 \<noteq> Some x)"
proof (cases xs)
  case Nil
  then show ?thesis by (simp add: at_def)
next
  case (Cons y ys)
  have "(indexOf ys x = 0) = (at ys 0 = Some x)" by (rule indexOf_0)
  moreover have "at (y # ys) 1 = at ys 0" by (auto simp: at_def)
  moreover have "at (y # ys) 0 = Some y" by (simp add: at_def)
  ultimately show ?thesis using Cons by (auto simp: Let_def)
qed

lemma firstLine_not_Null: "firstLine board ls = Some v \<Longrightarrow> v \<noteq> Null"
  by (induction board ls rule: firstLine.induct) (auto split: option.splits if_splits)

lemma checkBoardWinner_Null: "checkBoardWinner board = Null \<Longrightarrow> \<not> list_all (\<lambda>cell. cell \<noteq> Null) board"
  by (auto simp: checkBoardWinner_def split: option.splits if_splits dest: firstLine_not_Null)

lemma at_Null_not_all: "at board i = Some Null \<Longrightarrow> \<not> list_all (\<lambda>cell. cell \<noteq> Null) board"
proof -
  assume "at board i = Some Null"
  then have "0 \<le> i" "nat i < length board" "board ! nat i = Null"
    by (auto simp: at_def split: if_splits)
  then have "Null \<in> set board" by (metis nth_mem)
  then show ?thesis by (auto simp: list_all_iff)
qed

lemma makeTheMove_boards:
  "boards (makeTheMove r row b c now) = put (boards r) b (put row c (currentPlayer r))"
  by (simp add: makeTheMove_def Let_def)

lemma makeTheMove_mainBoard:
  "mainBoard (makeTheMove r row b c now) =
     (if checkBoardWinner (put row c (currentPlayer r)) \<noteq> Null
      then put (mainBoard r) b (checkBoardWinner (put row c (currentPlayer r))) else mainBoard r)"
  by (simp add: makeTheMove_def Let_def)

lemma makeTheMove_players:
  "players (makeTheMove r row b c now) = players r"
  "spectators (makeTheMove r row b c now) = spectators r"
  "lastUpdateTime (makeTheMove r row b c now) = now"
  "lastMove (makeTheMove r row b c now) = Some (b, c)"
  "currentPlayer (makeTheMove r row b c now) = (if currentPlayer r = PX then PO else PX)"
  by (simp_all add: makeTheMove_def Let_def)

lemma makeTheMove_nextBoardIndex:
  "nextBoardIndex (makeTheMove r row b c now) =
     (if at (mainBoard (makeTheMove r row b c now)) c = Some Null then c else -1)"
  by (simp add: makeTheMove_def Let_def)

lemma makeTheMove_gameOver:
  assumes "at (mainBoard r) b = Some Null" "\<not> gameOver r"
  shows "gameOver (makeTheMove r row b c now) = (checkBoardWinner (put row c (currentPlayer r)) \<noteq> Null \<and>
           checkBoardWinner (mainBoard (makeTheMove r row b c now)) \<noteq> Null)"
    and "winner (makeTheMove r row b c now) =
          (if gameOver (makeTheMove r row b c now) then checkBoardWinner (mainBoard (makeTheMove r row b c now)) else winner r)"
  using assms checkBoardWinner_Null [of "put (mainBoard r) b (checkBoardWinner (put row c (currentPlayer r)))"]
    at_Null_not_all [of "mainBoard r" b]
  by (auto simp: makeTheMove_def Let_def)

lemma handleMakeMove_Success:
  "handleMakeMove r p b c now = (Success, r') \<Longrightarrow>
     \<exists>row. \<not> gameOver r \<and> at (mainBoard r) b = Some Null \<and> at (boards r) b = Some row
        \<and> at row c = Some Null \<and> r' = makeTheMove r row b c now
        \<and> (nextBoardIndex r \<noteq> -1 \<and> at (mainBoard r) (nextBoardIndex r) = Some Null \<longrightarrow> b = nextBoardIndex r)"
  by (auto simp: handleMakeMove_def Let_def split: if_splits option.splits)

lemma handleMakeMove_snd:
  "snd (handleMakeMove r p b c now) = r \<or>
   (\<exists>row. \<not> gameOver r \<and> at (mainBoard r) b = Some Null \<and> at (boards r) b = Some row
        \<and> at row c = Some Null \<and> handleMakeMove r p b c now = (Success, makeTheMove r row b c now))"
  by (auto simp: handleMakeMove_def Let_def split: if_splits option.splits)

lemma at_mem: "at xs i = Some v \<Longrightarrow> v \<in> set xs"
  by (auto simp: at_def split: if_splits)

lemma wfGrid_empty: "wfGrid emptyBoards emptyMainBoard"
  by (simp add: wfGrid_def emptyBoards_def emptyMainBoard_def list_all_iff)

lemma wfGrid_makeTheMove:
  assumes "wfGrid (boards r) (mainBoard r)" "at (boards r) b = Some row"
  shows "wfGrid (boards (makeTheMove r row b c now)) (mainBoard (makeTheMove r row b c now))"
proof -
  have "length row = 9" using assms at_mem [of "boards r" b row] by (auto simp: wfGrid_def list_all_iff)
  then have "list_all (\<lambda>row. length row = 9) (put (boards r) b (put row c (currentPlayer r)))"
    using assms(1) by (intro list_all_put) (auto simp: wfGrid_def)
  then show ?thesis using assms(1)
    by (auto simp: wfGrid_def makeTheMove_boards makeTheMove_mainBoard)
qed

lemma serve_Join_game:
  "boards (snd (handleJoinRoom r p now)) = boards r"
  "mainBoard (snd (handleJoinRoom r p now)) = mainBoard r"
  "currentPlayer (snd (handleJoinRoom r p now)) = currentPlayer r"
  "nextBoardIndex (snd (handleJoinRoom r p now)) = nextBoardIndex r"
  "gameOver (snd (handleJoinRoom r p now)) = gameOver r"
  "winner (snd (handleJoinRoom r p now)) = winner r"
  "lastMove (snd (handleJoinRoom r p now)) = lastMove r"
  by (simp_all add: handleJoinRoom_def)

lemma reachable_wfGrid: "reachable r \<Longrightarrow> wfGrid (boards r) (mainBoard r)"
proof (induction rule: reachable.induct)
  case (created rid playerId now)
  then show ?case by (simp add: createRoom_def wfGrid_empty)
next
  case (served r req now)
  show ?case
  proof (cases req)
    case (Join p)
    then show ?thesis using served.IH by (simp add: serve_Join_game)
  next
    case (Move p b c)
    then show ?thesis using served.IH handleMakeMove_snd [of r p b c now]
      by (auto simp: wfGrid_makeTheMove)
  next
    case (Reset p)
    then show ?thesis using served.IH by (auto simp: handleResetGame_def wfGrid_empty)
  qed
qed

lemma reachable_players: "reachable r \<Longrightarrow> length (players r) \<le> 2"
proof (induction rule: reachable.induct)
  case (created rid playerId now)
  then show ?case by (simp add: createRoom_def)
next
  case (served r req now)
  show ?case
  proof (cases req)
    case (Join p)
    then show ?thesis using served.IH by (auto simp: handleJoinRoom_def)
  next
    case (Move p b c)
    then show ?thesis using served.IH handleMakeMove_snd [of r p b c now]
      by (auto simp: makeTheMove_players)
  next
    case (Reset p)
    then show ?thesis using served.IH by (auto simp: handleResetGame_def)
  qed
qed

lemma reachable_currentPlayer: "reachable r \<Longrightarrow> currentPlayer r = PX \<or> currentPlayer r = PO"
proof (induction rule: reachable.induct)
  case (created rid playerId now)
  then show ?case by (simp add: createRoom_def)
next
  case (served r req now)
  show ?case
  proof (cases req)
    case (Join p)
    then show ?thesis using served.IH by (simp add: serve_Join_game)
  next
    case (Move p b c)
    then show ?thesis using served.IH handleMakeMove_snd [of r p b c now]
      by (auto simp: makeTheMove_players)
  next
    case (Reset p)
    then show ?thesis using served.IH by (auto simp: handleResetGame_def)
  qed
qed

lemma checkBoardWinner_empty: "checkBoardWinner (replicate 9 Null) = Null"
  by code_simp

lemma empty_nth: "i < 9 \<Longrightarrow> emptyMainBoard ! i = Null \<and> emptyBoards ! i = replicate 9 Null"
  by (simp add: emptyMainBoard_def emptyBoards_def)

lemma reachable_mainBoard:
  "reachable r \<Longrightarrow> i < 9 \<Longrightarrow> mainBoard r ! i = checkBoardWinner (boards r ! i)"
proof (induction rule: reachable.induct)
  case (created rid playerId now)
  then show ?case by (simp add: createRoom_def empty_nth checkBoardWinner_empty)
next
  case (served r req now)
  show ?case
  proof (cases req)
    case (Join p)
    then show ?thesis using served by (simp add: serve_Join_game)
  next
    case (Move p b c)
    from handleMakeMove_snd [of r p b c now] show ?thesis
    proof
      assume "snd (handleMakeMove r p b c now) = r"
      then show ?thesis using Move served by simp
    next
      assume "\<exists>row. \<not> gameOver r \<and> at (mainBoard r) b = Some Null \<and> at (boards r) b = Some row
        \<and> at row c = Some Null \<and> handleMakeMove r p b c now = (Success, makeTheMove r row b c now)"
      then obtain row where row: "at (mainBoard r) b = Some Null" "at (boards r) b = Some row"
        "handleMakeMove r p b c now = (Success, makeTheMove r row b c now)" by blast
      have rng: "0 \<le> b" "b < int (length (boards r))" "b < int (length (mainBoard r))"
        "mainBoard r ! nat b = Null"
        using row at_Some_range [of "mainBoard r" b Null] at_Some_range [of "boards r" b row] by auto
      show ?thesis
      proof (cases "i = nat b")
        case True
        then show ?thesis using Move row(3) rng
          by (simp add: makeTheMove_boards makeTheMove_mainBoard nth_put)
      next
        case False
        then show ?thesis using Move row(3) rng served
          by (simp add: makeTheMove_boards makeTheMove_mainBoard nth_put)
      qed
    qed
  next
    case (Reset p)
    then show ?thesis using served
      by (auto simp: handleResetGame_def empty_nth checkBoardWinner_empty)
  qed
qed

lemma serve_keeps_resolved:
  assumes "\<not> isReset req" "mainBoard r ! i \<noteq> Null"
  shows "mainBoard (snd (serve r req now)) ! i = mainBoard r ! i"
proof (cases req)
  case (Join p)
  then show ?thesis by (simp add: serve_Join_game)
next
  case (Move p b c)
  from handleMakeMove_snd [of r p b c now] show ?thesis
  proof
    assume "snd (handleMakeMove r p b c now) = r"
    then show ?thesis using Move by simp
  next
    assume "\<exists>row. \<not> gameOver r \<and> at (mainBoard r) b = Some Null \<and> at (boards r) b = Some row
        \<and> at row c = Some Null \<and> handleMakeMove r p b c now = (Success, makeTheMove r row b c now)"
    then obtain row where row: "at (mainBoard r) b = Some Null"
        "handleMakeMove r p b c now = (Success, makeTheMove r row b c now)" by blast
    have "mainBoard r ! nat b = Null" using row(1) at_Some_range [of "mainBoard r" b Null] by simp
    then have "i \<noteq> nat b" using assms(2) by auto
    then show ?thesis using Move row(2) by (simp add: makeTheMove_mainBoard nth_put)
  qed
next
  case (Reset p)
  then show ?thesis using assms(1) by simp
qed

lemma serveAll_keeps_resolved:
  "list_all (\<lambda>(req, now). \<not> isReset req) reqs \<Longrightarrow> mainBoard r ! i \<noteq> Null
     \<Longrightarrow> mainBoard (serveAll r reqs) ! i = mainBoard r ! i"
proof (induction reqs arbitrary: r)
  case Nil
  then show ?case by simp
next
  case (Cons a reqs)
  obtain req now where a: "a = (req, now)" by (cases a)
  have step: "mainBoard (snd (serve r req now)) ! i = mainBoard r ! i"
    using Cons.prems a by (intro serve_keeps_resolved) auto
  then have "mainBoard (serveAll (snd (serve r req now)) reqs) ! i = mainBoard (snd (serve r req now)) ! i"
    using Cons.prems a by (intro Cons.IH) auto
  then show ?case using a step by simp
qed

lemma reachable_serveAll: "reachable r \<Longrightarrow> reachable (serveAll r reqs)"
proof (induction reqs arbitrary: r)
  case Nil
  then show ?case by simp
next
  case (Cons a reqs)
  obtain req now where a: "a = (req, now)" by (cases a)
  have "reachable (snd (serve r req now))" using Cons.prems by (rule reachable.served)
  then show ?case using a Cons.IH by simp
qed

lemma turn_iff:
  assumes "length (players r) \<le> 2" "currentPlayer r = PX \<or> currentPlayer r = PO"
  shows "(symbolOf r p = Some (currentPlayer r)) =
         (\<not> (indexOf (players r) p = -1 \<or> (indexOf (players r) p = 0 \<and> currentPlayer r \<noteq> PX)
              \<or> (indexOf (players r) p = 1 \<and> currentPlayer r \<noteq> PO)))"
proof -
  have "indexOf (players r) p = -1 \<or> indexOf (players r) p = 0 \<or> indexOf (players r) p = 1"
    using indexOf_bounds [of "players r" p] assms(1) by auto
  then show ?thesis
    using assms(2) indexOf_0 [of "players r" p] indexOf_1 [of "players r" p]
    by (auto simp: symbolOf_def)
qed

lemma wfGrid_row:
  assumes "wfGrid bs mb" "at mb b = Some v"
  shows "\<exists>row. at bs b = Some row \<and> length row = 9"
proof -
  have "0 \<le> b" "b < 9" using assms at_Some_range [of mb b v] by (auto simp: wfGrid_def)
  then have "at bs b = Some (bs ! nat b)" "bs ! nat b \<in> set bs"
    using assms(1) by (auto simp: wfGrid_def at_def)
  then show ?thesis using assms(1) by (auto simp: wfGrid_def list_all_iff)
qed

lemma placed_mark:
  assumes "at bs b = Some row" "at row c = Some Null"
  shows "at (put bs b (put row c v)) b = Some (put row c v)"
    and "at (put row c v) c = Some v"
proof -
  have rng: "0 \<le> b" "b < int (length bs)" "0 \<le> c" "c < int (length row)"
    using assms at_Some_range [of bs b row] at_Some_range [of row c Null] by auto
  show "at (put bs b (put row c v)) b = Some (put row c v)" using rng by (simp add: at_put)
  show "at (put row c v) c = Some v" using rng by (simp add: at_put)
qed

lemma makeTheMove_places:
  assumes "at (boards r) b = Some row" "at row c = Some Null"
  shows "at (boards (makeTheMove r row b c now)) b = Some (put row c (currentPlayer r))"
    and "at (put row c (currentPlayer r)) c = Some (currentPlayer r)"
  using placed_mark [OF assms, of "currentPlayer r"] by (simp_all add: makeTheMove_boards)

lemma makeTheMove_changes:
  assumes "at (boards r) b = Some row" "at row c = Some Null" "currentPlayer r \<noteq> Null"
  shows "boards (makeTheMove r row b c now) \<noteq> boards r"
proof
  assume eq: "boards (makeTheMove r row b c now) = boards r"
  have "put row c (currentPlayer r) = row"
    using makeTheMove_places(1) [OF assms(1,2), of now] eq assms(1) by simp
  then show False using makeTheMove_places(2) [OF assms(1,2)] assms(2,3) by simp
qed

lemma reachable_twoPlayerRoom: "reachable twoPlayerRoom"
proof -
  have "reachable (snd (serve (createRoom ''ROOM01'' ''host'' 100) (Join ''guest'') 200))"
    by (intro reachable.served reachable.created)
  then show ?thesis by (simp add: twoPlayerRoom_def)
qed

lemma reachable_move: "reachable r \<Longrightarrow> reachable (snd (handleMakeMove r p b c now))"
  using reachable.served [of r "Move p b c" now] by simp

lemma reachable_beforeCentre: "reachable beforeCentre"
  unfolding beforeCentre_def by (intro reachable_serveAll reachable_twoPlayerRoom)

section \<open>Invariants of a room\<close>

text \<open>
  C7. In every room that creating a room and serving join, move and reset requests can
  produce, \<open>gameOver\<close> is true if and only if \<open>winner\<close> is not \<open>null\<close>.
\<close>

theorem gameOver_iff_winner:
  assumes "reachable r"
  shows "gameOver r = (winner r \<noteq> Null)"
  using assms
proof (induction rule: reachable.induct)
  case (created rid playerId now)
  then show ?case by (simp add: createRoom_def)
next
  case (served r req now)
  show ?case
  proof (cases req)
    case (Join p)
    then show ?thesis using served.IH by (simp add: serve_Join_game)
  next
    case (Move p b c)
    then show ?thesis using served.IH handleMakeMove_snd [of r p b c now]
      by (auto simp: makeTheMove_gameOver)
  next
    case (Reset p)
    then show ?thesis using served.IH by (auto simp: handleResetGame_def)
  qed
qed

theorem gameOver_iff_winner_witness:
  "reachable (snd (handleMakeMove beforeWin ''host'' 4 2 318))
   \<and> gameOver (snd (handleMakeMove beforeWin ''host'' 4 2 318))
   \<and> winner (snd (handleMakeMove beforeWin ''host'' 4 2 318)) \<noteq> Null
   \<and> reachable twoPlayerRoom \<and> \<not> gameOver twoPlayerRoom \<and> winner twoPlayerRoom = Null"
proof -
  have r1: "reachable (snd (handleMakeMove beforeWin ''host'' 4 2 318))"
    unfolding beforeWin_def by (intro reachable_move reachable_serveAll reachable_twoPlayerRoom)
  have o1: "gameOver (snd (handleMakeMove beforeWin ''host'' 4 2 318))" by code_simp
  have o2: "\<not> gameOver twoPlayerRoom" by code_simp
  show ?thesis
    using r1 o1 o2 reachable_twoPlayerRoom gameOver_iff_winner [OF r1]
      gameOver_iff_winner [OF reachable_twoPlayerRoom]
    by simp
qed

text \<open>
  C8. In every reachable room and for every sub-board index \<open>i\<close>, \<open>mainBoard[i]\<close> is
  \<open>null\<close> or equals \<open>checkBoardWinner(boards[i])\<close>; and once \<open>mainBoard[i]\<close> is not
  \<open>null\<close>, it keeps its value across any further requests other than a reset.
\<close>

theorem mainBoard_tracks_boards:
  assumes "reachable r" and "i < 9"
  shows "(mainBoard r ! i = Null \<or> mainBoard r ! i = checkBoardWinner (boards r ! i))
       \<and> (\<forall>reqs. list_all (\<lambda>(req, now). \<not> isReset req) reqs \<longrightarrow> mainBoard r ! i \<noteq> Null
             \<longrightarrow> mainBoard (serveAll r reqs) ! i = mainBoard r ! i)"
  using assms reachable_mainBoard [of r i] serveAll_keeps_resolved [of _ r i] by blast

theorem mainBoard_tracks_boards_witness:
  "reachable afterCentre \<and> (4::nat) < 9
   \<and> mainBoard afterCentre ! 4 = PX
   \<and> checkBoardWinner (boards afterCentre ! 4) = PX
   \<and> mainBoard (serveAll afterCentre
        [(Move ''guest'' 4 1, 305), (Move ''guest'' 0 0, 306), (Join ''watcher'', 307),
         (Move ''host'' 0 1, 308)]) ! 4 = PX"
proof -
  have r: "reachable afterCentre"
    unfolding afterCentre_def by (intro reachable_move reachable_beforeCentre)
  have i: "(4::nat) < 9" by simp
  have v: "mainBoard afterCentre ! 4 = PX" by code_simp
  have nr: "list_all (\<lambda>(req, now). \<not> isReset req)
        [(Move ''guest'' 4 1, 305), (Move ''guest'' 0 0, 306), (Join ''watcher'', 307),
         (Move ''host'' 0 1, 308)]" by simp
  have t: "(mainBoard afterCentre ! 4 = Null
            \<or> mainBoard afterCentre ! 4 = checkBoardWinner (boards afterCentre ! 4))
       \<and> (\<forall>reqs. list_all (\<lambda>(req, now). \<not> isReset req) reqs \<longrightarrow> mainBoard afterCentre ! 4 \<noteq> Null
             \<longrightarrow> mainBoard (serveAll afterCentre reqs) ! 4 = mainBoard afterCentre ! 4)"
    by (rule mainBoard_tracks_boards [OF r i])
  have c: "checkBoardWinner (boards afterCentre ! 4) = PX" using t v by auto
  have "mainBoard (serveAll afterCentre
        [(Move ''guest'' 4 1, 305), (Move ''guest'' 0 0, 306), (Join ''watcher'', 307),
         (Move ''host'' 0 1, 308)]) ! 4 = mainBoard afterCentre ! 4"
    using t nr v by (metis mark.distinct(1))
  then show ?thesis using r i v c by (simp only: simp_thms)
qed

section \<open>Move requests\<close>

text \<open>
  C10. A move request whose \<open>boardIndex\<close> or \<open>cellIndex\<close> lies outside 0..8 is
  answered with an error and leaves the room as it was: the lookup outside the array is
  not \<open>null\<close>, so the condition of the board-already-won guard or of the
  cell-already-filled guard holds, and no guard before them mutates the room.
\<close>

theorem out_of_range_move_rejected:
  assumes "reachable r"
    and "boardIndex < 0 \<or> 8 < boardIndex \<or> cellIndex < 0 \<or> 8 < cellIndex"
  shows "(\<exists>msg. handleMakeMove r playerId boardIndex cellIndex now = (Failure msg, r))
       \<and> (at (mainBoard r) boardIndex \<noteq> Some Null
            \<or> (\<exists>row. at (boards r) boardIndex = Some row \<and> at row cellIndex \<noteq> Some Null))"
proof -
  have wf: "wfGrid (boards r) (mainBoard r)" using assms(1) by (rule reachable_wfGrid)
  show ?thesis
  proof (cases "at (mainBoard r) boardIndex = Some Null")
    case False
    then show ?thesis by (auto simp: handleMakeMove_def Let_def)
  next
    case True
    then have b: "0 \<le> boardIndex" "boardIndex < 9"
      using at_Some_range [of "mainBoard r" boardIndex Null] wf by (auto simp: wfGrid_def)
    then obtain row where row: "at (boards r) boardIndex = Some row"
      using wf by (auto simp: wfGrid_def at_def)
    then have "length row = 9" using wf at_mem [of "boards r" boardIndex row]
      by (auto simp: wfGrid_def list_all_iff)
    then have "at row cellIndex = None" using assms(2) b by (auto simp: at_def)
    then show ?thesis using row by (auto simp: handleMakeMove_def Let_def)
  qed
qed

theorem out_of_range_move_rejected_witness:
  "reachable twoPlayerRoom \<and> (8::int) < 9
   \<and> (\<exists>msg. handleMakeMove twoPlayerRoom ''host'' 9 0 300 = (Failure msg, twoPlayerRoom))
   \<and> at (mainBoard twoPlayerRoom) 9 = None
   \<and> (\<exists>msg. handleMakeMove twoPlayerRoom ''host'' 4 (- 1) 300 = (Failure msg, twoPlayerRoom))
   \<and> at (mainBoard twoPlayerRoom) 4 = Some Null"
proof -
  have a: "at (mainBoard twoPlayerRoom) 9 = None" "at (mainBoard twoPlayerRoom) 4 = Some Null"
    by code_simp+
  show ?thesis
    using a reachable_twoPlayerRoom
      out_of_range_move_rejected [OF reachable_twoPlayerRoom, of 9 0 "''host''" 300]
      out_of_range_move_rejected [OF reachable_twoPlayerRoom, of 4 "- 1" "''host''" 300]
    by simp
qed

text \<open>
  C6. In a reachable room a move request fails, with an error response, no exception and
  the room unchanged, if and only if the move is illegal (game over, wrong sub-board while
  the one named by \<open>nextBoardIndex\<close> is unresolved, target sub-board resolved, target
  cell not empty) or the requester's symbol is not the current player; otherwise it
  succeeds and the game state changes: the cell at \<open>(boardIndex, cellIndex)\<close> holds the
  mover's mark and \<open>lastMove\<close> is that move.
\<close>

theorem applyMove_fails_iff_illegal:
  assumes "reachable r"
  shows "((\<exists>msg. handleMakeMove r p b c now = (Failure msg, r))
            = (\<not> isLegal r b c \<or> symbolOf r p \<noteq> Some (currentPlayer r)))
       \<and> (isLegal r b c \<and> symbolOf r p = Some (currentPlayer r)
            \<longrightarrow> (\<exists>r'. handleMakeMove r p b c now = (Success, r') \<and> r' \<noteq> r
                   \<and> gameState r' \<noteq> gameState r
                   \<and> (case at (boards r') b of
                         None \<Rightarrow> False
                       | Some row' \<Rightarrow> at row' c = Some (currentPlayer r))
                   \<and> lastMove r' = Some (b, c)))
       \<and> fst (handleMakeMove r p b c now) \<noteq> Thrown"
proof -
  have wf: "wfGrid (boards r) (mainBoard r)" using assms by (rule reachable_wfGrid)
  have cur: "currentPlayer r = PX \<or> currentPlayer r = PO" using assms by (rule reachable_currentPlayer)
  have turn: "(symbolOf r p = Some (currentPlayer r)) =
         (\<not> (indexOf (players r) p = -1 \<or> (indexOf (players r) p = 0 \<and> currentPlayer r \<noteq> PX)
              \<or> (indexOf (players r) p = 1 \<and> currentPlayer r \<noteq> PO)))"
    using assms cur by (intro turn_iff reachable_players)
  show ?thesis
  proof (cases "symbolOf r p = Some (currentPlayer r)")
    case False
    then have "handleMakeMove r p b c now = (Failure ''Not your turn'', r)"
      using turn by (simp add: handleMakeMove_def Let_def)
    then show ?thesis using False by simp
  next
    case sym: True
    show ?thesis
    proof (cases "isLegal r b c")
      case True
      then obtain row where row: "at (boards r) b = Some row" "at row c = Some Null"
        by (auto simp: isLegal_def split: option.splits)
      have "handleMakeMove r p b c now = (Success, makeTheMove r row b c now)"
        using True sym turn row by (auto simp: handleMakeMove_def isLegal_def Let_def)
      moreover have ch: "boards (makeTheMove r row b c now) \<noteq> boards r"
        using row cur by (intro makeTheMove_changes) auto
      moreover have "makeTheMove r row b c now \<noteq> r" using ch by auto
      moreover have "gameState (makeTheMove r row b c now) \<noteq> gameState r"
        using ch by (auto simp: gameState_def)
      moreover have "(case at (boards (makeTheMove r row b c now)) b of
                         None \<Rightarrow> False
                       | Some row' \<Rightarrow> at row' c = Some (currentPlayer r))"
        using makeTheMove_places(1) [OF row, of now] makeTheMove_places(2) [OF row] by simp
      moreover have "lastMove (makeTheMove r row b c now) = Some (b, c)"
        by (simp add: makeTheMove_players)
      ultimately show ?thesis using True sym by simp
    next
      case False
      have "\<exists>msg. handleMakeMove r p b c now = (Failure msg, r)"
      proof (cases "at (mainBoard r) b = Some Null")
        case nb: False
        then show ?thesis by (auto simp: handleMakeMove_def Let_def)
      next
        case True
        then obtain row where "at (boards r) b = Some row" using wf wfGrid_row by blast
        then show ?thesis using False True sym turn
          by (auto simp: handleMakeMove_def isLegal_def Let_def)
      qed
      then show ?thesis using False by auto
    qed
  qed
qed

theorem applyMove_fails_iff_illegal_witness:
  "reachable twoPlayerRoom
   \<and> isLegal twoPlayerRoom 4 4
   \<and> symbolOf twoPlayerRoom ''host'' = Some (currentPlayer twoPlayerRoom)
   \<and> (\<exists>r'. handleMakeMove twoPlayerRoom ''host'' 4 4 300 = (Success, r') \<and> r' \<noteq> twoPlayerRoom
          \<and> gameState r' \<noteq> gameState twoPlayerRoom
          \<and> (case at (boards r') 4 of
                None \<Rightarrow> False
              | Some row' \<Rightarrow> at row' 4 = Some (currentPlayer twoPlayerRoom))
          \<and> lastMove r' = Some (4, 4))
   \<and> symbolOf twoPlayerRoom ''guest'' \<noteq> Some (currentPlayer twoPlayerRoom)
   \<and> (\<exists>msg. handleMakeMove twoPlayerRoom ''guest'' 4 4 300 = (Failure msg, twoPlayerRoom))"
proof -
  have l: "isLegal twoPlayerRoom 4 4" by code_simp
  have s: "symbolOf twoPlayerRoom ''host'' = Some (currentPlayer twoPlayerRoom)" by code_simp
  have n: "symbolOf twoPlayerRoom ''guest'' \<noteq> Some (currentPlayer twoPlayerRoom)" by code_simp
  show ?thesis
    using l s n reachable_twoPlayerRoom
      applyMove_fails_iff_illegal [OF reachable_twoPlayerRoom, of "''host''" 4 4 300]
      applyMove_fails_iff_illegal [OF reachable_twoPlayerRoom, of "''guest''" 4 4 300]
    by simp
qed

text \<open>
  The same holds for \<open>makeMove\<close> of the client-side store, which answers with a boolean
  and, on success, stores the updated room as \<open>currentRoom\<close> and in \<open>rooms\<close>.
\<close>

lemma updatedRoom_places:
  assumes "at (boards cr) b = Some row" "at row c = Some Null"
  shows "at (boards (updatedRoom cr row b c now)) b = Some (put row c (currentPlayer cr))"
    and "at (put row c (currentPlayer cr)) c = Some (currentPlayer cr)"
  using placed_mark [OF assms, of "currentPlayer cr"] by (simp_all add: updatedRoom_def Let_def)

lemma updatedRoom_changes:
  assumes "at (boards cr) b = Some row" "at row c = Some Null" "currentPlayer cr \<noteq> Null"
  shows "boards (updatedRoom cr row b c now) \<noteq> boards cr"
proof
  assume eq: "boards (updatedRoom cr row b c now) = boards cr"
  have "put row c (currentPlayer cr) = row"
    using updatedRoom_places(1) [OF assms(1,2), of now] eq assms(1) by simp
  then show False using updatedRoom_places(2) [OF assms(1,2)] assms(2,3) by simp
qed

lemma store_makeMove_fails_iff_illegal:
  assumes "currentRoom st = Some cr" "wfGrid (boards cr) (mainBoard cr)"
    "currentPlayer cr = PX \<or> currentPlayer cr = PO"
  shows "((makeMove st b c now = (Some False, st))
            = (\<not> isLegal cr b c \<or> \<not> sameSymbol (playerSymbol st) (currentPlayer cr)))
       \<and> (isLegal cr b c \<and> sameSymbol (playerSymbol st) (currentPlayer cr)
            \<longrightarrow> (\<exists>st' cr'. makeMove st b c now = (Some True, st') \<and> st' \<noteq> st
                   \<and> currentRoom st' = Some cr' \<and> rooms st' (room_id cr) = Some cr'
                   \<and> gameState cr' \<noteq> gameState cr
                   \<and> (case at (boards cr') b of
                         None \<Rightarrow> False
                       | Some row' \<Rightarrow> at row' c = Some (currentPlayer cr))
                   \<and> lastMove cr' = Some (b, c)))
       \<and> fst (makeMove st b c now) \<noteq> None"
proof (cases "sameSymbol (playerSymbol st) (currentPlayer cr)")
  case False
  then show ?thesis using assms(1) by (simp add: makeMove_def)
next
  case sym: True
  then have ns: "playerSymbol st \<noteq> Some Spectator" by auto
  show ?thesis
  proof (cases "isLegal cr b c")
    case True
    then obtain row where row: "at (boards cr) b = Some row" "at row c = Some Null"
      by (auto simp: isLegal_def split: option.splits)
    have mk: "makeMove st b c now =
          (Some True, st\<lparr> rooms := (rooms st)(room_id cr \<mapsto> updatedRoom cr row b c now),
                           currentRoom := Some (updatedRoom cr row b c now) \<rparr>)"
      using True sym ns row assms(1) by (auto simp: makeMove_def isLegal_def Let_def)
    have ch: "boards (updatedRoom cr row b c now) \<noteq> boards cr"
      using row assms(3) by (intro updatedRoom_changes) auto
    have gs: "gameState (updatedRoom cr row b c now) \<noteq> gameState cr"
      using ch by (auto simp: gameState_def)
    have pl: "(case at (boards (updatedRoom cr row b c now)) b of
                 None \<Rightarrow> False
               | Some row' \<Rightarrow> at row' c = Some (currentPlayer cr))"
      using updatedRoom_places(1) [OF row, of now] updatedRoom_places(2) [OF row] by simp
    have lm: "lastMove (updatedRoom cr row b c now) = Some (b, c)"
      by (simp add: updatedRoom_def Let_def)
    have "updatedRoom cr row b c now \<noteq> cr" using ch by auto
    then have "currentRoom (st\<lparr> rooms := (rooms st)(room_id cr \<mapsto> updatedRoom cr row b c now),
                           currentRoom := Some (updatedRoom cr row b c now) \<rparr>) \<noteq> currentRoom st"
      using assms(1) by simp
    then have "st\<lparr> rooms := (rooms st)(room_id cr \<mapsto> updatedRoom cr row b c now),
                           currentRoom := Some (updatedRoom cr row b c now) \<rparr> \<noteq> st"
      by metis
    then show ?thesis using mk True sym gs pl lm by simp
  next
    case False
    have "makeMove st b c now = (Some False, st)"
    proof (cases "at (mainBoard cr) b = Some Null")
      case nb: False
      then show ?thesis using assms(1) by (auto simp: makeMove_def)
    next
      case True
      then obtain row where "at (boards cr) b = Some row" using assms(2) wfGrid_row by blast
      then show ?thesis using False True sym ns assms(1)
        by (auto simp: makeMove_def isLegal_def Let_def)
    qed
    then show ?thesis using False by simp
  qed
qed

section \<open>The two drivers\<close>

text \<open>
  C1. The two drivers do not give identical fields for every legal move. After 18 legal
  moves, which lead both drivers to the same game state, X (the host) wins the game by
  playing cell 2 of sub-board 4. Both drivers set
  \<open>gameOver\<close> and \<open>winner = X\<close>; the room handler goes on to set \<open>nextBoardIndex\<close>
  to \<open>-1\<close> and \<open>currentPlayer\<close> to O, while \<open>handleMove\<close> returns after
  \<open>setGameOver(true)\<close> and leaves \<open>currentPlayer = X\<close> and \<open>nextBoardIndex = 4\<close>.
\<close>

theorem drivers_differ_on_winning_move:
  "reachable beforeWin
   \<and> handleMoves initialGame xWinsGame = Some (gameState beforeWin)
   \<and> fst (handleMakeMove beforeWin ''host'' 4 2 318) = Success
   \<and> gameOver (snd (handleMakeMove beforeWin ''host'' 4 2 318))
   \<and> winner (snd (handleMakeMove beforeWin ''host'' 4 2 318)) = PX
   \<and> currentPlayer (snd (handleMakeMove beforeWin ''host'' 4 2 318)) = PO
   \<and> nextBoardIndex (snd (handleMakeMove beforeWin ''host'' 4 2 318)) = - 1
   \<and> map_option gameOver (handleMove (gameState beforeWin) 4 2) = Some True
   \<and> map_option winner (handleMove (gameState beforeWin) 4 2) = Some PX
   \<and> map_option currentPlayer (handleMove (gameState beforeWin) 4 2) = Some PX
   \<and> map_option nextBoardIndex (handleMove (gameState beforeWin) 4 2) = Some 4"
proof -
  have "reachable beforeWin"
    unfolding beforeWin_def by (intro reachable_serveAll reachable_twoPlayerRoom)
  moreover have "handleMoves initialGame xWinsGame = Some (gameState beforeWin)"
    by code_simp
  moreover have "fst (handleMakeMove beforeWin ''host'' 4 2 318) = Success
   \<and> gameOver (snd (handleMakeMove beforeWin ''host'' 4 2 318))
   \<and> winner (snd (handleMakeMove beforeWin ''host'' 4 2 318)) = PX
   \<and> currentPlayer (snd (handleMakeMove beforeWin ''host'' 4 2 318)) = PO
   \<and> nextBoardIndex (snd (handleMakeMove beforeWin ''host'' 4 2 318)) = - 1
   \<and> map_option gameOver (handleMove (gameState beforeWin) 4 2) = Some True
   \<and> map_option winner (handleMove (gameState beforeWin) 4 2) = Some PX
   \<and> map_option currentPlayer (handleMove (gameState beforeWin) 4 2) = Some PX
   \<and> map_option nextBoardIndex (handleMove (gameState beforeWin) 4 2) = Some 4"
    by code_simp
  ultimately show ?thesis by simp
qed

text \<open>
  C1, as amended. For every room and every move request the room handler accepts,
  \<open>handleMove\<close> applied to the same game state yields the same \<open>boards\<close>,
  \<open>mainBoard\<close>, \<open>gameOver\<close>, \<open>winner\<close> and \<open>lastMove\<close>; \<open>currentPlayer\<close> is the
  same too whenever the move does not end the game, and \<open>nextBoardIndex\<close> whenever the
  move does not end the game and leaves \<open>mainBoard[cellIndex]\<close> as it was.
\<close>

theorem drivers_agree_unless_game_ends:
  assumes "handleMakeMove r p b c now = (Success, r')"
  shows "\<exists>g'. handleMove (gameState r) b c = Some g'
           \<and> boards g' = boards r' \<and> mainBoard g' = mainBoard r'
           \<and> gameOver g' = gameOver r' \<and> winner g' = winner r' \<and> lastMove g' = lastMove r'
           \<and> (\<not> gameOver r' \<longrightarrow> currentPlayer g' = currentPlayer r')
           \<and> (\<not> gameOver r' \<and> at (mainBoard r') c = at (mainBoard r) c
                \<longrightarrow> nextBoardIndex g' = nextBoardIndex r')"
proof -
  from handleMakeMove_Success [OF assms] obtain row where
    g: "\<not> gameOver r" "at (mainBoard r) b = Some Null" "at (boards r) b = Some row"
       "at row c = Some Null" "r' = makeTheMove r row b c now"
       "nextBoardIndex r \<noteq> -1 \<and> at (mainBoard r) (nextBoardIndex r) = Some Null \<longrightarrow> b = nextBoardIndex r"
    by blast
  define row' where "row' = put row c (currentPlayer r)"
  define bw where "bw = checkBoardWinner row'"
  define gw where "gw = checkBoardWinner (put (mainBoard r) b bw)"
  have guards: "\<not> gameOver (gameState r)"
    "\<not> (nextBoardIndex (gameState r) \<noteq> -1 \<and> nextBoardIndex (gameState r) \<noteq> b
         \<and> at (mainBoard (gameState r)) (nextBoardIndex (gameState r)) = Some Null)"
    "at (mainBoard (gameState r)) b = Some Null"
    "at (boards (gameState r)) b = Some row"
    using g by (auto simp: gameState_def)
  have rb: "boards r' = put (boards r) b row'"
    and rm: "mainBoard r' = (if bw \<noteq> Null then put (mainBoard r) b bw else mainBoard r)"
    and rl: "lastMove r' = Some (b, c)"
    and rc: "currentPlayer r' = (if currentPlayer r = PX then PO else PX)"
    unfolding g(5) row'_def bw_def
    by (simp_all add: makeTheMove_boards makeTheMove_mainBoard makeTheMove_players)
  have rn: "nextBoardIndex r' = (if at (mainBoard r') c = Some Null then c else -1)"
    unfolding g(5) by (rule makeTheMove_nextBoardIndex)
  have ro: "gameOver r' = (bw \<noteq> Null \<and> checkBoardWinner (mainBoard r') \<noteq> Null)"
    and rw: "winner r' = (if gameOver r' then checkBoardWinner (mainBoard r') else winner r)"
    using makeTheMove_gameOver [OF g(2) g(1), of row c now] unfolding g(5) row'_def bw_def by simp_all
  show ?thesis
  proof (cases "bw = Null")
    case True
    have "handleMove (gameState r) b c =
            Some ((gameState r)\<lparr> boards := put (boards r) b row', lastMove := Some (b, c),
                    nextBoardIndex := (if at (mainBoard r) c = Some Null then c else -1),
                    currentPlayer := (if currentPlayer r = PX then PO else PX) \<rparr>)"
      using guards g(4) True unfolding handleMove_def bw_def row'_def
      by (simp add: Let_def gameState_def)
    then show ?thesis using True rb rm rl rc rn ro rw g(1) by (simp add: gameState_def)
  next
    case bwn: False
    show ?thesis
    proof (cases "gw = Null")
      case True
      have "handleMove (gameState r) b c =
            Some ((gameState r)\<lparr> boards := put (boards r) b row', lastMove := Some (b, c),
                    mainBoard := put (mainBoard r) b bw,
                    nextBoardIndex := (if at (mainBoard r) c = Some Null then c else -1),
                    currentPlayer := (if currentPlayer r = PX then PO else PX) \<rparr>)"
        using guards g(4) True bwn unfolding handleMove_def gw_def bw_def row'_def
        by (simp add: Let_def gameState_def)
      then show ?thesis using True bwn rb rm rl rc rn ro rw g(1) unfolding gw_def
        by (simp add: gameState_def)
    next
      case False
      have "handleMove (gameState r) b c =
            Some ((gameState r)\<lparr> boards := put (boards r) b row', lastMove := Some (b, c),
                    mainBoard := put (mainBoard r) b bw, winner := gw, gameOver := True \<rparr>)"
        using guards g(4) False bwn unfolding handleMove_def gw_def bw_def row'_def
        by (simp add: Let_def gameState_def)
      then show ?thesis using False bwn rb rm rl rc rn ro rw g(1) unfolding gw_def
        by (simp add: gameState_def)
    qed
  qed
qed

theorem drivers_agree_unless_game_ends_witness:
  "handleMakeMove twoPlayerRoom ''host'' 4 4 300
     = (Success, snd (handleMakeMove twoPlayerRoom ''host'' 4 4 300))
   \<and> \<not> gameOver (snd (handleMakeMove twoPlayerRoom ''host'' 4 4 300))
   \<and> at (mainBoard (snd (handleMakeMove twoPlayerRoom ''host'' 4 4 300))) 4
       = at (mainBoard twoPlayerRoom) 4
   \<and> map_option currentPlayer (handleMove (gameState twoPlayerRoom) 4 4)
       = Some (currentPlayer (snd (handleMakeMove twoPlayerRoom ''host'' 4 4 300)))
   \<and> map_option nextBoardIndex (handleMove (gameState twoPlayerRoom) 4 4)
       = Some (nextBoardIndex (snd (handleMakeMove twoPlayerRoom ''host'' 4 4 300)))
   \<and> map_option boards (handleMove (gameState twoPlayerRoom) 4 4)
       = Some (boards (snd (handleMakeMove twoPlayerRoom ''host'' 4 4 300)))
   \<and> handleMakeMove beforeCentre ''host'' 4 4 304 = (Success, afterCentre)
   \<and> \<not> gameOver afterCentre
   \<and> at (mainBoard afterCentre) 4 \<noteq> at (mainBoard beforeCentre) 4
   \<and> map_option currentPlayer (handleMove (gameState beforeCentre) 4 4)
       = Some (currentPlayer afterCentre)"
proof -
  have ok: "handleMakeMove twoPlayerRoom ''host'' 4 4 300
     = (Success, snd (handleMakeMove twoPlayerRoom ''host'' 4 4 300))"
    by code_simp
  have no: "\<not> gameOver (snd (handleMakeMove twoPlayerRoom ''host'' 4 4 300))" by code_simp
  have same: "at (mainBoard (snd (handleMakeMove twoPlayerRoom ''host'' 4 4 300))) 4
       = at (mainBoard twoPlayerRoom) 4" by code_simp
  have first: "map_option currentPlayer (handleMove (gameState twoPlayerRoom) 4 4)
       = Some (currentPlayer (snd (handleMakeMove twoPlayerRoom ''host'' 4 4 300)))
   \<and> map_option nextBoardIndex (handleMove (gameState twoPlayerRoom) 4 4)
       = Some (nextBoardIndex (snd (handleMakeMove twoPlayerRoom ''host'' 4 4 300)))
   \<and> map_option boards (handleMove (gameState twoPlayerRoom) 4 4)
       = Some (boards (snd (handleMakeMove twoPlayerRoom ''host'' 4 4 300)))"
    using no same drivers_agree_unless_game_ends [OF ok] by auto
  have ok2: "handleMakeMove beforeCentre ''host'' 4 4 304 = (Success, afterCentre)"
    by code_simp
  have no2: "\<not> gameOver afterCentre" by code_simp
  have diff: "at (mainBoard afterCentre) 4 \<noteq> at (mainBoard beforeCentre) 4" by code_simp
  have second: "map_option currentPlayer (handleMove (gameState beforeCentre) 4 4)
       = Some (currentPlayer afterCentre)"
    using no2 drivers_agree_unless_game_ends [OF ok2] by auto
  show ?thesis using ok no same first ok2 no2 diff second by (simp only: simp_thms)
qed

text \<open>
  C5. After a legal move, \<open>nextBoardIndex\<close> should be \<open>cellIndex\<close> if the main-board
  entry at \<open>cellIndex\<close> is empty after the move, and \<open>-1\<close> otherwise. \<open>handleMove\<close>
  reads the entry from before the move: after X on cells 0 and 8 of sub-board 4 (O
  answering in cell 4 of sub-boards 0 and 8; the four clicks bring the component to the
  same game state as the room), X plays cell 4 of sub-board 4 and wins that sub-board; the game goes on, \<open>mainBoard[4]\<close> is X after the move, and \<open>handleMove\<close>
  sets \<open>nextBoardIndex\<close> to 4. The room handler sets \<open>-1\<close> on the same move.
\<close>

theorem local_routing_reads_stale_mainBoard:
  "handleMoves initialGame [(4, 0), (0, 4), (4, 8), (8, 4)] = Some (gameState beforeCentre)
   \<and> reachable beforeCentre
   \<and> map_option (\<lambda>g. at (mainBoard g) 4) (handleMove (gameState beforeCentre) 4 4) = Some (Some PX)
   \<and> map_option gameOver (handleMove (gameState beforeCentre) 4 4) = Some False
   \<and> map_option nextBoardIndex (handleMove (gameState beforeCentre) 4 4) = Some 4
   \<and> fst (handleMakeMove beforeCentre ''host'' 4 4 304) = Success
   \<and> at (mainBoard (snd (handleMakeMove beforeCentre ''host'' 4 4 304))) 4 = Some PX
   \<and> nextBoardIndex (snd (handleMakeMove beforeCentre ''host'' 4 4 304)) = - 1"
proof -
  have "reachable beforeCentre"
    unfolding beforeCentre_def by (intro reachable_serveAll reachable_twoPlayerRoom)
  moreover have "handleMoves initialGame [(4, 0), (0, 4), (4, 8), (8, 4)]
                   = Some (gameState beforeCentre)"
    by code_simp
  moreover have "map_option (\<lambda>g. at (mainBoard g) 4) (handleMove (gameState beforeCentre) 4 4) = Some (Some PX)
   \<and> map_option gameOver (handleMove (gameState beforeCentre) 4 4) = Some False
   \<and> map_option nextBoardIndex (handleMove (gameState beforeCentre) 4 4) = Some 4
   \<and> fst (handleMakeMove beforeCentre ''host'' 4 4 304) = Success
   \<and> at (mainBoard (snd (handleMakeMove beforeCentre ''host'' 4 4 304))) 4 = Some PX
   \<and> nextBoardIndex (snd (handleMakeMove beforeCentre ''host'' 4 4 304)) = - 1"
    by code_simp
  ultimately show ?thesis by simp
qed

section \<open>Lines of draws\<close>

text \<open>
  C3. A main-board line of three draws should not count as a winning triple, and a move
  that completes such a line should not end the game while unresolved sub-boards remain.
  \<open>checkBoardWinner\<close> returns \<open>"draw"\<close> from its loop over the winning combinations
  for such a line, and the room handler then ends the game: after 45 legal moves
  sub-boards 0 and 1 are drawn, O's move to cell 8 of sub-board 2 draws sub-board 2, and
  the handler sets \<open>gameOver\<close> with winner \<open>"draw"\<close> although six sub-boards are
  unresolved.
\<close>

theorem line_of_draws_ends_game:
  "reachable beforeDrawLine
   \<and> mainBoard beforeDrawLine = [Draw, Draw, Null, Null, Null, Null, Null, Null, Null]
   \<and> \<not> gameOver beforeDrawLine
   \<and> fst (handleMakeMove beforeDrawLine ''guest'' 2 8 345) = Success
   \<and> mainBoard (snd (handleMakeMove beforeDrawLine ''guest'' 2 8 345))
        = [Draw, Draw, Draw, Null, Null, Null, Null, Null, Null]
   \<and> gameOver (snd (handleMakeMove beforeDrawLine ''guest'' 2 8 345))
   \<and> winner (snd (handleMakeMove beforeDrawLine ''guest'' 2 8 345)) = Draw
   \<and> firstLine [Draw, Draw, Draw, Null, Null, Null, Null, Null, Null] WINNING_COMBINATIONS
        = Some Draw
   \<and> checkBoardWinner [Draw, Draw, Draw, Null, Null, Null, Null, Null, Null] = Draw"
proof -
  have "reachable beforeDrawLine"
    unfolding beforeDrawLine_def by (intro reachable_serveAll reachable_twoPlayerRoom)
  moreover have "mainBoard beforeDrawLine = [Draw, Draw, Null, Null, Null, Null, Null, Null, Null]
   \<and> \<not> gameOver beforeDrawLine
   \<and> fst (handleMakeMove beforeDrawLine ''guest'' 2 8 345) = Success
   \<and> mainBoard (snd (handleMakeMove beforeDrawLine ''guest'' 2 8 345))
        = [Draw, Draw, Draw, Null, Null, Null, Null, Null, Null]
   \<and> gameOver (snd (handleMakeMove beforeDrawLine ''guest'' 2 8 345))
   \<and> winner (snd (handleMakeMove beforeDrawLine ''guest'' 2 8 345)) = Draw
   \<and> firstLine [Draw, Draw, Draw, Null, Null, Null, Null, Null, Null] WINNING_COMBINATIONS
        = Some Draw
   \<and> checkBoardWinner [Draw, Draw, Draw, Null, Null, Null, Null, Null, Null] = Draw"
    by code_simp
  ultimately show ?thesis by simp
qed

section \<open>Room synchronisation\<close>

text \<open>
  C9. Every accepted room mutation should set \<open>lastUpdateTime\<close> to the current time,
  a join that adds a spectator included. The handler does not do so on that path: in a
  room created at time 100 and joined by a second player at time 200, a third participant
  joining at time 300 is answered as a spectator and is appended to \<open>spectators\<close>, and
  \<open>lastUpdateTime\<close> is still 200.
\<close>

theorem spectator_join_keeps_lastUpdateTime:
  "let r = snd (handleJoinRoom (createRoom ''ROOM01'' ''host'' 100) ''guest'' 200);
       res = handleJoinRoom r ''watcher'' 300
   in players r = [''host'', ''guest''] \<and> spectators r = [] \<and> lastUpdateTime r = 200
      \<and> fst res = Joined Spectator False
      \<and> spectators (snd res) = [''watcher''] \<and> lastUpdateTime (snd res) = 200"
  by code_simp

section \<open>The search\<close>

text \<open>
  C2. A node reached with depth 0 and an unresolved main board should be scored on its own
  simulated boards. \<open>minimax\<close> scores the component's boards instead: from the empty
  position, the child reached by X playing cell 4 of sub-board 4 is a depth-0 node whose
  own heuristic score for X is 4, and the search returns 0, the score of the empty
  position.
\<close>

theorem depth0_leaf_scores_component_state:
  "let child = put emptyBoards 4 (put (replicate 9 Null) 4 PX)
   in simulate emptyBoards emptyMainBoard PX (4, 4) = Some (child, emptyMainBoard, 4)
      \<and> checkBoardWinner emptyMainBoard = Null
      \<and> minimax emptyBoards emptyMainBoard 0 NegInf PosInf False PX child emptyMainBoard 4
          = Some (Num 0, None)
      \<and> evaluateBoard emptyBoards emptyMainBoard PX = Some 0
      \<and> evaluateBoard child emptyMainBoard PX = Some 4"
  by code_simp

text \<open>Facts about the scores and the two loops of the search.\<close>

lemma NegInf_least [simp]: "NegInf \<le> (x::jsnum)"
  by simp

lemma PosInf_greatest [simp]: "(x::jsnum) \<le> PosInf"
  by (cases x) simp_all

lemma max_NegInf [simp]: "max (x::jsnum) NegInf = x" "max NegInf (x::jsnum) = x"
  by (cases x; simp add: max_def)+

lemma min_PosInf [simp]: "min (x::jsnum) PosInf = x" "min PosInf (x::jsnum) = x"
  by (cases x; simp add: min_def)+

lemma NegInf_less_PosInf: "NegInf < PosInf"
  by (simp add: less_jsnum_def)

lemma softBound_refl: "softBound alpha beta v v"
  by (simp add: softBound_def)

lemma softBound_full: "softBound NegInf PosInf v t \<Longrightarrow> v = t"
  by (cases v; cases t) (auto simp: softBound_def less_jsnum_def)

lemma softBound_max_step:
  fixes alpha0 :: jsnum
  assumes "alpha0 < beta" "max alpha0 m < beta" "softBound alpha0 beta m T"
    "softBound (max alpha0 m) beta s t"
  shows "softBound alpha0 beta (max m s) (max T t)"
  using assms unfolding softBound_def max_def
  by (auto split: if_splits)

lemma softBound_min_step:
  fixes alpha :: jsnum
  assumes "alpha < beta0" "alpha < min beta0 m" "softBound alpha beta0 m T"
    "softBound alpha (min beta0 m) s t"
  shows "softBound alpha beta0 (min m s) (min T t)"
  using assms unfolding softBound_def min_def
  by (auto split: if_splits)


lemma maxLoop_softBound:
  assumes kids: "\<And>mv a b. mv \<in> set ms \<Longrightarrow> a < b \<Longrightarrow>
                   \<exists>v r. child a b mv = Some (v, r) \<and> softBound a b v (g mv)"
    and "alpha0 < beta" "max alpha0 m < beta" "softBound alpha0 beta m T"
  shows "\<exists>v r. maxLoop child (max alpha0 m) beta m best ms = Some (v, r)
           \<and> softBound alpha0 beta v (max T (foldr max (map g ms) NegInf))"
  using assms
proof (induction ms arbitrary: m T best)
  case Nil
  then show ?case by simp
next
  case (Cons mv rest)
  from Cons.prems(1) [of mv "max alpha0 m" beta] Cons.prems(3)
  obtain s r where s: "child (max alpha0 m) beta mv = Some (s, r)"
    "softBound (max alpha0 m) beta s (g mv)" by auto
  have step: "softBound alpha0 beta (max m s) (max T (g mv))"
    using Cons.prems(2,3,4) s(2) by (rule softBound_max_step)
  have m': "(if m < s then s else m) = max m s" by (auto simp: max_def)
  have a': "max (max alpha0 m) s = max alpha0 (max m s)" by (simp add: max.assoc)
  show ?case
  proof (cases "beta \<le> max alpha0 (max m s)")
    case True
    then have "beta \<le> max m s" using Cons.prems(2) by (auto simp: max_def split: if_splits)
    then have "max m s \<le> max T (g mv)" using step by (simp add: softBound_def)
    then have "softBound alpha0 beta (max m s) (max T (foldr max (map g (mv # rest)) NegInf))"
      using \<open>beta \<le> max m s\<close> Cons.prems(2)
      by (auto simp: softBound_def max_def split: if_splits)
    then show ?thesis using s(1) True by (simp add: m' a' Let_def)
  next
    case False
    then have lt: "max alpha0 (max m s) < beta" by (simp only: not_le)
    have "\<exists>v r. maxLoop child (max alpha0 (max m s)) beta (max m s)
                  (if m < s then Some mv else best) rest = Some (v, r)
           \<and> softBound alpha0 beta v (max (max T (g mv)) (foldr max (map g rest) NegInf))"
      using Cons.prems(1,2) lt step by (intro Cons.IH) auto
    then show ?thesis using s(1) False by (simp add: m' a' Let_def max.assoc)
  qed
qed

lemma minLoop_softBound:
  assumes kids: "\<And>mv a b. mv \<in> set ms \<Longrightarrow> a < b \<Longrightarrow>
                   \<exists>v r. child a b mv = Some (v, r) \<and> softBound a b v (g mv)"
    and "alpha < beta0" "alpha < min beta0 m" "softBound alpha beta0 m T"
  shows "\<exists>v r. minLoop child alpha (min beta0 m) m best ms = Some (v, r)
           \<and> softBound alpha beta0 v (min T (foldr min (map g ms) PosInf))"
  using assms
proof (induction ms arbitrary: m T best)
  case Nil
  then show ?case by simp
next
  case (Cons mv rest)
  from Cons.prems(1) [of mv alpha "min beta0 m"] Cons.prems(3)
  obtain s r where s: "child alpha (min beta0 m) mv = Some (s, r)"
    "softBound alpha (min beta0 m) s (g mv)" by auto
  have step: "softBound alpha beta0 (min m s) (min T (g mv))"
    using Cons.prems(2,3,4) s(2) by (rule softBound_min_step)
  have m': "(if s < m then s else m) = min m s" by (auto simp: min_def)
  have b': "min (min beta0 m) s = min beta0 (min m s)" by (simp add: min.assoc)
  show ?case
  proof (cases "min beta0 (min m s) \<le> alpha")
    case True
    then have "min m s \<le> alpha" using Cons.prems(2) by (auto simp: min_def split: if_splits)
    then have "min T (g mv) \<le> min m s" using step by (simp add: softBound_def)
    then have "softBound alpha beta0 (min m s) (min T (foldr min (map g (mv # rest)) PosInf))"
      using \<open>min m s \<le> alpha\<close> Cons.prems(2)
      by (auto simp: softBound_def min_def split: if_splits)
    then show ?thesis using s(1) True by (simp add: m' b' Let_def)
  next
    case False
    then have lt: "alpha < min beta0 (min m s)" by (simp only: not_le)
    have "\<exists>v r. minLoop child alpha (min beta0 (min m s)) (min m s)
                  (if s < m then Some mv else best) rest = Some (v, r)
           \<and> softBound alpha beta0 v (min (min T (g mv)) (foldr min (map g rest) PosInf))"
      using Cons.prems(1,2) lt step by (intro Cons.IH) auto
    then show ?thesis using s(1) False by (simp add: m' b' Let_def min.assoc)
  qed
qed

lemma bestOf_max:
  "(\<And>mv. mv \<in> set ms \<Longrightarrow> f mv = Some (g mv))
     \<Longrightarrow> bestOf True (map f ms) = Some (foldr max (map g ms) NegInf)"
  by (induction ms) auto

lemma bestOf_min:
  "(\<And>mv. mv \<in> set ms \<Longrightarrow> f mv = Some (g mv))
     \<Longrightarrow> bestOf False (map f ms) = Some (foldr min (map g ms) PosInf)"
  by (induction ms) auto


lemma cellsOf_Some:
  "at bs b = Some row \<Longrightarrow> \<exists>ms. cellsOf bs b = Some ms \<and> (\<forall>mv\<in>set ms. fst mv = b)"
  by (auto simp: cellsOf_def)

lemma allBoards_Some:
  assumes "wfGrid bs mb"
  shows "\<exists>ms. allBoards bs mb idxs = Some ms \<and> (\<forall>mv\<in>set ms. at bs (fst mv) \<noteq> None)"
proof (induction idxs)
  case Nil
  then show ?case by simp
next
  case (Cons i idxs)
  then obtain more where more: "allBoards bs mb idxs = Some more"
    "\<forall>mv\<in>set more. at bs (fst mv) \<noteq> None" by blast
  show ?case
  proof (cases "at mb i = Some Null")
    case True
    then obtain row where row: "at bs i = Some row" using assms wfGrid_row by blast
    then obtain ms where "cellsOf bs i = Some ms" "\<forall>mv\<in>set ms. fst mv = i"
      using cellsOf_Some by blast
    then show ?thesis using True more row by auto
  next
    case False
    then show ?thesis using more by simp
  qed
qed

lemma validMoves_Some:
  assumes "wfGrid bs mb"
  shows "\<exists>ms. validMoves bs mb nb = Some ms \<and> (\<forall>mv\<in>set ms. at bs (fst mv) \<noteq> None)"
proof (cases "nb \<noteq> -1 \<and> at mb nb = Some Null")
  case True
  then obtain row where row: "at bs nb = Some row" using assms wfGrid_row by blast
  then obtain ms where "cellsOf bs nb = Some ms" "\<forall>mv\<in>set ms. fst mv = nb"
    using cellsOf_Some by blast
  then show ?thesis using True row by (auto simp: validMoves_def)
next
  case False
  then have "validMoves bs mb nb = allBoards bs mb [0..8]" by (auto simp: validMoves_def)
  then show ?thesis using allBoards_Some [OF assms, of "[0..8]"] by simp
qed

lemma simulate_Some:
  assumes "wfGrid bs mb" "at bs (fst mv) \<noteq> None"
  shows "\<exists>nb' nm' nn'. simulate bs mb who mv = Some (nb', nm', nn') \<and> wfGrid nb' nm'"
proof -
  obtain b c where mv: "mv = (b, c)" by (cases mv)
  then obtain row where row: "at bs b = Some row" using assms(2) by auto
  then have "length row = 9" using assms(1) at_mem [of bs b row] by (auto simp: wfGrid_def list_all_iff)
  then have "list_all (\<lambda>row. length row = 9) (put bs b (put row c who))"
    using assms(1) by (intro list_all_put) (auto simp: wfGrid_def)
  then show ?thesis using assms(1) row mv
    by (auto simp: simulate_def Let_def wfGrid_def)
qed

lemma subScores_Some:
  assumes "wfGrid bs mb"
  shows "\<exists>s. subScores bs mb p idxs = Some s"
proof (induction idxs)
  case Nil
  then show ?case by simp
next
  case (Cons i idxs)
  show ?case
  proof (cases "at mb i = Some Null")
    case True
    then obtain row where "at bs i = Some row" using assms wfGrid_row by blast
    then show ?thesis using True Cons by auto
  next
    case False
    then show ?thesis using Cons by simp
  qed
qed

lemma evaluateBoard_Some: "wfGrid bs mb \<Longrightarrow> \<exists>s. evaluateBoard bs mb p = Some s"
  using subScores_Some [of bs mb p "[0..8]"] by (auto simp: evaluateBoard_def Let_def)

declare minimax.simps [simp del] fullMinimax.simps [simp del]

lemma minimax_softBound:
  assumes wf0: "wfGrid bs0 mb0"
  shows "wfGrid bs mb \<Longrightarrow> a < b \<Longrightarrow>
     \<exists>v r t. minimax bs0 mb0 d a b isMax p bs mb nb = Some (v, r)
        \<and> fullMinimax bs0 mb0 d isMax p bs mb nb = Some t \<and> softBound a b v t"
proof (induction d arbitrary: a b isMax bs mb nb)
  case 0
  obtain s where "evaluateBoard bs0 mb0 p = Some s" using wf0 evaluateBoard_Some by blast
  then show ?case
    by (subst minimax.simps, subst fullMinimax.simps) (simp add: Let_def softBound_refl)
next
  case (Suc d)
  show ?case
  proof (cases "checkBoardWinner mb = p \<or> checkBoardWinner mb = opponentOf p
                \<or> checkBoardWinner mb = Draw")
    case True
    then show ?thesis
      by (subst minimax.simps, subst fullMinimax.simps) (auto simp: Let_def softBound_refl)
  next
    case inner: False
    obtain moves where moves: "validMoves bs mb nb = Some moves"
      "\<forall>mv\<in>set moves. at bs (fst mv) \<noteq> None"
      using validMoves_Some [OF Suc.prems(1)] by blast
    show ?thesis
    proof (cases "moves = []")
      case True
      then show ?thesis using inner moves(1)
        by (subst minimax.simps, subst fullMinimax.simps) (auto simp: Let_def softBound_refl)
    next
      case nonempty: False
      define who where "who = (if isMax then p else opponentOf p)"
      define child where "child = (\<lambda>a b move.
          case simulate bs mb who move of
            None \<Rightarrow> None
          | Some (newBoards, newMainBoard, newNextBoardIndex) \<Rightarrow>
              minimax bs0 mb0 d a b (\<not> isMax) p newBoards newMainBoard newNextBoardIndex)"
      define f where "f = (\<lambda>move.
          case simulate bs mb who move of
            None \<Rightarrow> None
          | Some (newBoards, newMainBoard, newNextBoardIndex) \<Rightarrow>
              fullMinimax bs0 mb0 d (\<not> isMax) p newBoards newMainBoard newNextBoardIndex)"
      define g where "g = (\<lambda>move. the (f move))"
      have kids: "\<exists>v r. child a' b' mv = Some (v, r) \<and> f mv = Some (g mv) \<and> softBound a' b' v (g mv)"
        if mvin: "mv \<in> set moves" and lt: "a' < b'" for mv a' b'
      proof -
        obtain x y z where sim: "simulate bs mb who mv = Some (x, y, z)" "wfGrid x y"
          using simulate_Some [OF Suc.prems(1), of mv who] moves(2) mvin by blast
        from Suc.IH [OF sim(2) lt, of "\<not> isMax" z]
        show ?thesis using sim(1) by (auto simp: child_def f_def g_def)
      qed
      have kids1: "\<exists>v r. child a' b' mv = Some (v, r) \<and> softBound a' b' v (g mv)"
        if "mv \<in> set moves" "a' < b'" for mv a' b'
        using kids [OF that] by blast
      have kids2: "f mv = Some (g mv)" if "mv \<in> set moves" for mv
        using kids [OF that NegInf_less_PosInf] by blast
      have full: "fullMinimax bs0 mb0 (Suc d) isMax p bs mb nb = bestOf isMax (map f moves)"
        using inner moves(1) nonempty
        by (subst fullMinimax.simps) (simp add: Let_def f_def who_def)
      show ?thesis
      proof (cases isMax)
        case True
        have mm: "minimax bs0 mb0 (Suc d) a b isMax p bs mb nb = maxLoop child a b NegInf None moves"
          using inner moves(1) nonempty True
          by (subst minimax.simps) (simp add: Let_def child_def who_def cong: option.case_cong)
        have "\<exists>v r. maxLoop child (max a NegInf) b NegInf None moves = Some (v, r)
           \<and> softBound a b v (max NegInf (foldr max (map g moves) NegInf))"
          using Suc.prems(2) by (intro maxLoop_softBound kids1) (simp_all add: softBound_refl)
        moreover have "bestOf True (map f moves) = Some (foldr max (map g moves) NegInf)"
          by (intro bestOf_max kids2)
        ultimately show ?thesis using mm full True by auto
      next
        case False
        have mm: "minimax bs0 mb0 (Suc d) a b isMax p bs mb nb = minLoop child a b PosInf None moves"
          using inner moves(1) nonempty False
          by (subst minimax.simps) (simp add: Let_def child_def who_def cong: option.case_cong)
        have "\<exists>v r. minLoop child a (min b PosInf) PosInf None moves = Some (v, r)
           \<and> softBound a b v (min PosInf (foldr min (map g moves) PosInf))"
          using Suc.prems(2) by (intro minLoop_softBound kids1) (simp_all add: softBound_refl)
        moreover have "bestOf False (map f moves) = Some (foldr min (map g moves) PosInf)"
          by (intro bestOf_min kids2)
        ultimately show ?thesis using mm full False by auto
      qed
    qed
  qed
qed

text \<open>
  C4. For boards of nine sub-boards of nine cells, any root player, depth and side to
  move, the pruned search called with the window \<open>(-Infinity, +Infinity)\<close> returns a
  result, and its score is the score of the unpruned minimax over the same move tree with
  the same leaf evaluation.
\<close>

theorem alpha_beta_equals_full_minimax:
  assumes "wfGrid boards0 mainBoard0" and "wfGrid currentBoards currentMainBoard"
  shows "\<exists>v. map_option fst (minimax boards0 mainBoard0 depth NegInf PosInf isMaximizing player
                                currentBoards currentMainBoard currentNextBoardIndex) = Some v
           \<and> fullMinimax boards0 mainBoard0 depth isMaximizing player
                 currentBoards currentMainBoard currentNextBoardIndex = Some v"
  using minimax_softBound [OF assms NegInf_less_PosInf,
          of depth isMaximizing player currentNextBoardIndex]
  by (auto dest: softBound_full)

theorem alpha_beta_equals_full_minimax_witness:
  "wfGrid (boards beforeWin) (mainBoard beforeWin)
   \<and> map_option fst (minimax (boards beforeWin) (mainBoard beforeWin) 2 NegInf PosInf True PX
          (boards beforeWin) (mainBoard beforeWin) 4) = Some (Num 101)
   \<and> fullMinimax (boards beforeWin) (mainBoard beforeWin) 2 True PX
          (boards beforeWin) (mainBoard beforeWin) 4 = Some (Num 101)"
proof -
  have wf: "wfGrid (boards beforeWin) (mainBoard beforeWin)" by code_simp
  have ab: "map_option fst (minimax (boards beforeWin) (mainBoard beforeWin) 2 NegInf PosInf True PX
          (boards beforeWin) (mainBoard beforeWin) 4) = Some (Num 101)" by code_simp
  show ?thesis
    using wf ab alpha_beta_equals_full_minimax [OF wf wf, of 2 True PX 4] by auto
qed

end
